theory Spec2Isabelle
  imports Complex_Main "HOL-Library.AList" "HOL-Library.Char_ord" "HOL-Library.List_Lexorder"
begin

section \<open>Text: characters, regular-expression substitutions, tokens\<close>

text \<open>
  A Python string is a sequence of Unicode code points. The functions of this section
  work on lists over any type \<open>'c\<close> of characters; what Python knows about characters is
  the record \<open>chars\<close>: \<open>is_space\<close> is \<open>str.isspace\<close>, the class \<open>\s\<close> of \<open>re\<close>; \<open>is_alnum\<close> is
  \<open>str.isalnum\<close> (the class \<open>\w\<close> is an alphanumeric character or the underscore);
  \<open>is_decimal\<close> is \<open>str.isdecimal\<close>, the class \<open>\d\<close>; \<open>lower\<close> is \<open>str.lower\<close>, a function of the
  whole string (a capital sigma is lowered according to its place in the word); \<open>asc\<close>
  gives the character with the code of an ASCII character, for the characters that the
  patterns name.
\<close>

record 'c chars =
  is_space :: "'c \<Rightarrow> bool"
  is_alnum :: "'c \<Rightarrow> bool"
  is_decimal :: "'c \<Rightarrow> bool"
  lower :: "'c list \<Rightarrow> 'c list"
  asc :: "char \<Rightarrow> 'c"

definition is_word :: "'c chars \<Rightarrow> 'c \<Rightarrow> bool" where
  "is_word M c = (is_alnum M c \<or> c = asc M (CHR ''_''))"

lemma length_dropWhile_tl_le: "length (dropWhile P xs) - Suc 0 \<le> length xs"
  using length_dropWhile_le [of P xs] by arith

text \<open>\<open>re.sub(r"\s+", " ", text)\<close>: every maximal run of whitespace becomes one space.\<close>

function sub_ws :: "'c chars \<Rightarrow> 'c list \<Rightarrow> 'c list" where
  "sub_ws M [] = []"
| "sub_ws M (c # cs) =
     (if is_space M c then asc M (CHR '' '') # sub_ws M (dropWhile (is_space M) cs)
      else c # sub_ws M cs)"
  by pat_completeness auto
termination
  by (relation "measure (\<lambda>(M, s). length s)") (auto simp: less_Suc_eq_le length_dropWhile_le)

text \<open>
  \<open>re.sub(r"<[^>]*>", "", text)\<close>: at a \<open><\<close> that has a \<open>>\<close> somewhere behind it, the match
  runs to the first such \<open>>\<close> and is deleted; a \<open><\<close> with no \<open>>\<close> behind it stays.
\<close>

function sub_tag :: "'c chars \<Rightarrow> 'c list \<Rightarrow> 'c list" where
  "sub_tag M [] = []"
| "sub_tag M (c # cs) =
     (if c = asc M (CHR ''<'') \<and> asc M (CHR ''>'') \<in> set cs
      then sub_tag M (tl (dropWhile (\<lambda>x. x \<noteq> asc M (CHR ''>'')) cs))
      else c # sub_tag M cs)"
  by pat_completeness auto
termination
  by (relation "measure (\<lambda>(M, s). length s)") (auto simp: less_Suc_eq_le length_dropWhile_tl_le)

text \<open>
  \<open>re.sub(r"\[.*?\]", "", text)\<close> and \<open>re.sub(r"\(.*?\)", "", text)\<close>: the lazy \<open>.*?\<close> stops at
  the first closing character, and \<open>.\<close> does not match a line feed.
\<close>

function sub_lazy :: "'c chars \<Rightarrow> char \<Rightarrow> char \<Rightarrow> 'c list \<Rightarrow> 'c list" where
  "sub_lazy M opn cls [] = []"
| "sub_lazy M opn cls (c # cs) =
     (if c = asc M opn \<and> asc M cls \<in> set cs
         \<and> asc M (CHR 0x0A) \<notin> set (takeWhile (\<lambda>x. x \<noteq> asc M cls) cs)
      then sub_lazy M opn cls (tl (dropWhile (\<lambda>x. x \<noteq> asc M cls) cs))
      else c # sub_lazy M opn cls cs)"
  by pat_completeness auto
termination
  by (relation "measure (\<lambda>(M, opn, cls, s). length s)")
     (auto simp: less_Suc_eq_le length_dropWhile_tl_le)

text \<open>
  \<open>re.sub(r"\b(?:http|ftp)s?://\S+", "", text)\<close>. The four ways the scheme can be read are
  tried in the order of the pattern; behind the scheme at least one non-space character
  is needed, and the greedy \<open>\S+\<close> takes the whole run. \<open>url_match\<close> returns the text behind
  the match. \<open>\b\<close> in front of the scheme letter holds when the previous character is not
  a word character (or there is none): \<open>sub_url\<close> carries that as its second argument.
\<close>

fun strip_prefix :: "'c list \<Rightarrow> 'c list \<Rightarrow> 'c list option" where
  "strip_prefix [] s = Some s"
| "strip_prefix (p # ps) [] = None"
| "strip_prefix (p # ps) (c # cs) = (if p = c then strip_prefix ps cs else None)"

fun first_prefix :: "'c list list \<Rightarrow> 'c list \<Rightarrow> 'c list option" where
  "first_prefix [] s = None"
| "first_prefix (p # ps) s =
     (case strip_prefix p s of Some r \<Rightarrow> Some r | None \<Rightarrow> first_prefix ps s)"

definition url_match :: "'c chars \<Rightarrow> 'c list \<Rightarrow> 'c list option" where
  "url_match M s =
     (case first_prefix (map (map (asc M)) [''https://'', ''http://'', ''ftps://'', ''ftp://'']) s of
        None \<Rightarrow> None
      | Some r \<Rightarrow>
          (case r of
             [] \<Rightarrow> None
           | x # xs \<Rightarrow>
               if is_space M x then None else Some (dropWhile (\<lambda>y. \<not> is_space M y) xs)))"

lemma strip_prefix_length: "strip_prefix p s = Some r \<Longrightarrow> length r \<le> length s"
  by (induction p s rule: strip_prefix.induct) (auto split: if_splits)

lemma first_prefix_length: "first_prefix ps s = Some r \<Longrightarrow> length r \<le> length s"
  by (induction ps) (auto split: option.splits dest: strip_prefix_length)

lemma url_match_length: "url_match M s = Some r \<Longrightarrow> length r < length s"
proof -
  assume a: "url_match M s = Some r"
  then obtain r' where f:
    "first_prefix (map (map (asc M)) [''https://'', ''http://'', ''ftps://'', ''ftp://'']) s = Some r'"
    by (auto simp: url_match_def split: option.splits)
  from a f obtain x xs where r': "r' = x # xs" and r: "r = dropWhile (\<lambda>y. \<not> is_space M y) xs"
    by (auto simp: url_match_def split: list.splits if_splits)
  have "length r' \<le> length s" using f by (rule first_prefix_length)
  moreover have "length r \<le> length xs" unfolding r by (rule length_dropWhile_le)
  ultimately show ?thesis using r' by simp
qed

function sub_url :: "'c chars \<Rightarrow> bool \<Rightarrow> 'c list \<Rightarrow> 'c list" where
  "sub_url M prev_word [] = []"
| "sub_url M prev_word (c # cs) =
     (case (if prev_word then None else url_match M (c # cs)) of
        Some rest \<Rightarrow> sub_url M True rest
      | None \<Rightarrow> c # sub_url M (is_word M c) cs)"
  by pat_completeness auto
termination
  by (relation "measure (\<lambda>(M, b, s). length s)")
     (auto split: if_splits dest: url_match_length)

text \<open>\<open>re.sub(r"\W", " ", text)\<close> and \<open>re.sub(r"\d+", "", text)\<close>.\<close>

definition sub_nonword :: "'c chars \<Rightarrow> 'c list \<Rightarrow> 'c list" where
  "sub_nonword M t = map (\<lambda>c. if is_word M c then c else asc M (CHR '' '')) t"

definition sub_digits :: "'c chars \<Rightarrow> 'c list \<Rightarrow> 'c list" where
  "sub_digits M t = filter (\<lambda>c. \<not> is_decimal M c) t"

text \<open>The seven substitutions of \<open>clean_and_tokenize\<close> and \<open>text.lower()\<close>, in its order.\<close>

definition clean :: "'c chars \<Rightarrow> 'c list \<Rightarrow> 'c list" where
  "clean M text =
     lower M (sub_digits M (sub_nonword M (sub_url M False
       (sub_lazy M (CHR ''('') (CHR '')'')
         (sub_lazy M (CHR ''['') (CHR '']'') (sub_tag M (sub_ws M text)))))))"

text \<open>
  \<open>clean_and_tokenize\<close> of \<open>src/utils.py\<close>. Its last step, \<open>nltk.word_tokenize\<close>, is a
  third-party function; it is the parameter \<open>word_tokenize\<close>.
\<close>

definition clean_and_tokenize ::
  "'c chars \<Rightarrow> ('c list \<Rightarrow> 'c list list) \<Rightarrow> 'c list \<Rightarrow> 'c list list" where
  "clean_and_tokenize M word_tokenize text = word_tokenize (clean M text)"

text \<open>
  Two facts about Python that the properties of the tokens rest on. \<open>python_lower\<close>:
  lower-casing a text of word characters that are not decimal digits, and of spaces,
  gives no decimal digit and no ASCII character other than a lower-case letter, an
  underscore or a space. \<open>word_splitter\<close>: on a cleaned text the word tokenizer returns
  non-empty pieces of the words of the text.
\<close>

definition ascii :: "char \<Rightarrow> bool" where
  "ascii a = ((of_char a :: nat) < 128)"

definition ascii_lower :: "char \<Rightarrow> bool" where
  "ascii_lower a = (let n = (of_char a :: nat) in 97 \<le> n \<and> n \<le> 122)"

definition word_text :: "'c chars \<Rightarrow> 'c list \<Rightarrow> bool" where
  "word_text M s = (\<forall>d \<in> set s. (is_word M d \<and> \<not> is_decimal M d) \<or> d = asc M (CHR '' ''))"

definition python_lower :: "'c chars \<Rightarrow> bool" where
  "python_lower M =
     (\<forall>s. word_text M s \<longrightarrow>
        (\<forall>c \<in> set (lower M s).
           \<not> is_decimal M c
           \<and> (\<forall>a. ascii a \<and> c = asc M a \<longrightarrow> ascii_lower a \<or> a = CHR ''_'' \<or> a = CHR '' '')))"

definition word_splitter :: "'c chars \<Rightarrow> ('c list \<Rightarrow> 'c list list) \<Rightarrow> bool" where
  "word_splitter M tok =
     (\<forall>t. \<forall>w \<in> set (tok (clean M t)). w \<noteq> [] \<and> set w \<subseteq> set (clean M t) - {asc M (CHR '' '')})"

subsection \<open>The characters up to U+00FF\<close>

text \<open>
  An Isabelle character is read as the code point of its number. \<open>latin1\<close> is what Python
  knows about these 256 characters: the spaces are 9 to 13, 28 to 32, 133 and 160; the
  alphanumeric characters are the ASCII ones, 170, 178, 179, 181, 185, 186, 188 to 190
  and the letters from 192 on (not 215 and 247); the decimal digits are 48 to 57; a string
  is lowered character by character, the capitals 65 to 90 and 192 to 222 (not 215) to
  the character 32 places on. The texts of the examples are strings of this kind, and
  \<open>split_words\<close>, splitting at spaces, is their word tokenizer.
\<close>

definition latin1_space :: "char \<Rightarrow> bool" where
  "latin1_space c =
     (let n = (of_char c :: nat)
      in (9 \<le> n \<and> n \<le> 13) \<or> (28 \<le> n \<and> n \<le> 32) \<or> n = 133 \<or> n = 160)"

definition latin1_alnum :: "char \<Rightarrow> bool" where
  "latin1_alnum c =
     (let n = (of_char c :: nat)
      in (48 \<le> n \<and> n \<le> 57) \<or> (65 \<le> n \<and> n \<le> 90) \<or> (97 \<le> n \<and> n \<le> 122)
         \<or> n = 170 \<or> n = 178 \<or> n = 179 \<or> n = 181 \<or> n = 185 \<or> n = 186
         \<or> (188 \<le> n \<and> n \<le> 190) \<or> (192 \<le> n \<and> n \<le> 214) \<or> (216 \<le> n \<and> n \<le> 246)
         \<or> 248 \<le> n)"

definition latin1_decimal :: "char \<Rightarrow> bool" where
  "latin1_decimal c = (let n = (of_char c :: nat) in 48 \<le> n \<and> n \<le> 57)"

definition latin1_lower :: "char \<Rightarrow> char" where
  "latin1_lower c =
     (let n = (of_char c :: nat)
      in if (65 \<le> n \<and> n \<le> 90) \<or> (192 \<le> n \<and> n \<le> 222 \<and> n \<noteq> 215) then char_of (n + 32)
         else c)"

definition latin1 :: "char chars" where
  "latin1 = \<lparr>is_space = latin1_space, is_alnum = latin1_alnum, is_decimal = latin1_decimal,
             lower = map latin1_lower, asc = (\<lambda>a. a)\<rparr>"

fun split_acc :: "string \<Rightarrow> string \<Rightarrow> string list" where
  "split_acc acc [] = (if acc = [] then [] else [rev acc])"
| "split_acc acc (c # cs) =
     (if latin1_space c then (if acc = [] then split_acc [] cs else rev acc # split_acc [] cs)
      else split_acc (c # acc) cs)"

definition split_words :: "string \<Rightarrow> string list" where
  "split_words t = split_acc [] t"

section \<open>Documents and the context assembler\<close>

record metadata =
  source :: string
  file_id :: string

record document =
  page_content :: string
  metadata :: metadata

text \<open>\<open>str(n)\<close> for a non-negative integer, and \<open>os.path.basename\<close> (POSIX).\<close>

definition digit_char :: "nat \<Rightarrow> char" where
  "digit_char d = char_of (48 + d)"

fun str_nat :: "nat \<Rightarrow> string" where
  "str_nat n = (if n < 10 then [digit_char n] else str_nat (n div 10) @ [digit_char (n mod 10)])"

declare str_nat.simps [simp del]

definition basename :: "string \<Rightarrow> string" where
  "basename p = rev (takeWhile (\<lambda>c. c \<noteq> CHR ''/'') (rev p))"

fun join :: "string \<Rightarrow> string list \<Rightarrow> string" where
  "join sep [] = []"
| "join sep [x] = x"
| "join sep (x # y # ys) = x @ sep @ join sep (y # ys)"

text \<open>\<open>format_documents\<close> of \<open>src/utils.py\<close>.\<close>

definition format_documents :: "document list \<Rightarrow> string" where
  "format_documents documents =
     join [CHR 0x0A]
       (map (\<lambda>(i, doc). str_nat (i + 1) @ ''. '' @ basename (source (metadata doc)) @ '': ''
                          @ page_content doc)
            (enumerate 0 documents))"

text \<open>
  The context block as the specification words it: the chunks in order, the one at
  1-based rank \<open>r\<close> rendered as \<open>rank_line r\<close>, a line feed between two renderings.
\<close>

definition rank_line :: "nat \<Rightarrow> document \<Rightarrow> string" where
  "rank_line r doc =
     str_nat r @ ''. '' @ basename (source (metadata doc)) @ '': '' @ page_content doc"

fun format_context :: "nat \<Rightarrow> document list \<Rightarrow> string" where
  "format_context r [] = []"
| "format_context r [d] = rank_line r d"
| "format_context r (d # e # ds) = rank_line r d @ [CHR 0x0A] @ format_context (Suc r) (e # ds)"

section \<open>Scoring\<close>

datatype error = AttributeError | ValueError | ZeroDivisionError | IndexError

subsection \<open>The lexical index\<close>

text \<open>
  Modelled from the spec: the class \<open>BM25Okapi\<close> (package \<open>rank_bm25\<close>) is not under
  \<open>src/\<close>. Section 4.3 of the specification asks for an index built once from the tokens of
  every chunk, in chunk order, whose scoring operation returns one score per chunk from
  the term frequency in the chunk, the inverse document frequency over the corpus and a
  length normalisation. The definitions are the Okapi formulas with the package's
  constants \<open>k1 = 1.5\<close>, \<open>b = 0.75\<close>, \<open>epsilon = 0.25\<close>, over the reals. A Python \<open>dict\<close> is
  an association list in insertion order; building the index divides by the number of
  documents and by the number of distinct words, which raises \<open>ZeroDivisionError\<close> when
  that number is zero.
\<close>

record bm25 =
  corpus_size :: nat
  avgdl :: real
  doc_freqs :: "(string \<times> nat) list list"
  idf :: "(string \<times> real) list"
  doc_len :: "nat list"

definition incr :: "string \<Rightarrow> (string \<times> nat) list \<Rightarrow> (string \<times> nat) list" where
  "incr w d = AList.update w (case map_of d w of None \<Rightarrow> 1 | Some k \<Rightarrow> k + 1) d"

definition frequencies :: "string list \<Rightarrow> (string \<times> nat) list" where
  "frequencies doc = fold incr doc []"

definition word_doc_counts :: "(string \<times> nat) list list \<Rightarrow> (string \<times> nat) list" where
  "word_doc_counts freqs = fold (\<lambda>fr nd. fold (\<lambda>(w, k). incr w) fr nd) freqs []"

definition calc_idf :: "nat \<Rightarrow> (string \<times> nat) list \<Rightarrow> error + (string \<times> real) list" where
  "calc_idf n nd =
     (if nd = [] then Inl ZeroDivisionError
      else
        let raw = map (\<lambda>(w, f). (w, ln (real n - real f + 0.5) - ln (real f + 0.5))) nd;
            average_idf = sum_list (map snd raw) / real (length raw);
            eps = 0.25 * average_idf
        in Inr (map (\<lambda>(w, v). (w, if v < 0 then eps else v)) raw))"

definition BM25Okapi :: "string list list \<Rightarrow> error + bm25" where
  "BM25Okapi corpus =
     (if corpus = [] then Inl ZeroDivisionError
      else
        let freqs = map frequencies corpus;
            n = length corpus;
            num_doc = sum_list (map length corpus)
        in case calc_idf n (word_doc_counts freqs) of
             Inl e \<Rightarrow> Inl e
           | Inr idfs \<Rightarrow>
               Inr \<lparr>corpus_size = n, avgdl = real num_doc / real n, doc_freqs = freqs,
                    idf = idfs, doc_len = map length corpus\<rparr>)"

definition term_score :: "bm25 \<Rightarrow> string \<Rightarrow> (string \<times> nat) list \<Rightarrow> nat \<Rightarrow> real" where
  "term_score ix q fr dl =
     (let q_freq = real (case map_of fr q of None \<Rightarrow> 0 | Some k \<Rightarrow> k);
          w = (case map_of (idf ix) q of None \<Rightarrow> 0 | Some v \<Rightarrow> v)
      in w * (q_freq * (1.5 + 1) / (q_freq + 1.5 * (1 - 0.75 + 0.75 * real dl / avgdl ix))))"

definition get_scores :: "bm25 \<Rightarrow> string list \<Rightarrow> real list" where
  "get_scores ix query =
     fold (\<lambda>q score. map2 (+) score (map2 (term_score ix q) (doc_freqs ix) (doc_len ix)))
       query (replicate (corpus_size ix) 0)"

subsection \<open>The vector-space index\<close>

text \<open>
  Modelled from the spec: \<open>TfidfVectorizer\<close> and \<open>cosine_similarity\<close> (package
  \<open>scikit-learn\<close>) are not under \<open>src/\<close>. Section 4.4 of the specification asks for a sparse
  vector space over the chunks, built with the normalisation of the tokenizer, English
  stop words excluded, smoothed inverse document frequency and sublinear term frequency,
  and for the cosine similarity of the query vector with every chunk vector, as an array
  aligned with the chunks. The vectorizer lower-cases a text, passes it to its tokenizer
  (here \<open>clean_and_tokenize\<close>) and drops the stop words; its vocabulary is the sorted set of
  the remaining terms, and fitting a corpus that leaves no term raises \<open>ValueError\<close>.
  The stop-word list is the parameter \<open>stop\<close>. Weights are over the reals.
\<close>

definition analyze :: "(string \<Rightarrow> string list) \<Rightarrow> string set \<Rightarrow> string \<Rightarrow> string list" where
  "analyze tok stop doc = filter (\<lambda>w. w \<notin> stop) (clean_and_tokenize latin1 tok (lower latin1 doc))"

definition tf_weight :: "nat \<Rightarrow> real" where
  "tf_weight c = (if c = 0 then 0 else 1 + ln (real c))"

definition idf_weight :: "string list list \<Rightarrow> string \<Rightarrow> real" where
  "idf_weight adocs t =
     ln ((1 + real (length adocs)) / (1 + real (length (filter (\<lambda>d. t \<in> set d) adocs)))) + 1"

definition l2_normalize :: "real list \<Rightarrow> real list" where
  "l2_normalize v =
     (let nrm = sqrt (sum_list (map (\<lambda>x. x * x) v))
      in if nrm = 0 then v else map (\<lambda>x. x / nrm) v)"

record tfidf =
  vocabulary :: "string list"
  idf_vector :: "real list"

definition tfidf_row :: "tfidf \<Rightarrow> string list \<Rightarrow> real list" where
  "tfidf_row m toks =
     l2_normalize (map2 (\<lambda>t w. tf_weight (count_list toks t) * w) (vocabulary m) (idf_vector m))"

definition fit :: "string list list \<Rightarrow> error + tfidf" where
  "fit adocs =
     (let vocab = sort (remdups (concat adocs))
      in if vocab = [] then Inl ValueError
         else Inr \<lparr>vocabulary = vocab, idf_vector = map (idf_weight adocs) vocab\<rparr>)"

definition dot :: "real list \<Rightarrow> real list \<Rightarrow> real" where
  "dot u v = sum_list (map2 (*) u v)"

definition cosine_similarity :: "real list \<Rightarrow> real list list \<Rightarrow> real list" where
  "cosine_similarity q rows = map (\<lambda>r. dot (l2_normalize q) (l2_normalize r)) rows"

subsection \<open>Arrays, sets and slices\<close>

text \<open>
  Arithmetic on \<open>numpy\<close> arrays of one dimension: multiplying by a scalar, and adding two
  arrays, which broadcasts an array of length one and raises \<open>ValueError\<close> on any other
  difference of lengths. \<open>argsort\<close> returns the indices in increasing order of the values.
\<close>

definition np_scale :: "real list \<Rightarrow> real \<Rightarrow> real list" where
  "np_scale xs k = map (\<lambda>x. x * k) xs"

definition np_add :: "real list \<Rightarrow> real list \<Rightarrow> error + real list" where
  "np_add xs ys =
     (if length xs = length ys then Inr (map2 (+) xs ys)
      else if length xs = 1 then Inr (map (\<lambda>y. hd xs + y) ys)
      else if length ys = 1 then Inr (map (\<lambda>x. x + hd ys) xs)
      else Inl ValueError)"

definition argsort :: "real list \<Rightarrow> nat list" where
  "argsort xs = sort_key (\<lambda>i. xs ! i) [0..<length xs]"

text \<open>
  \<open>list(set(xs))\<close> for \<open>xs\<close> the indices \<open>0, ..., n - 1\<close> of an array, in any order. The hash
  of the integer \<open>k\<close> is \<open>k\<close>, and CPython keeps a key in the slot of its hash modulo the
  size of a table that it holds larger than the number of keys; iterating over the set
  walks the slots upwards. So the list holds each index once, in increasing order.
\<close>

definition list_of_set :: "nat list \<Rightarrow> nat list" where
  "list_of_set xs = sorted_list_of_set (set xs)"

text \<open>The slice \<open>xs[:n]\<close>: a negative \<open>n\<close> counts from the end.\<close>

definition slice_to :: "'a list \<Rightarrow> int \<Rightarrow> 'a list" where
  "slice_to xs n = (if 0 \<le> n then take (nat n) xs else take (length xs - nat (- n)) xs)"

text \<open>\<open>[documents[i] for i in indices]\<close>, for indices that are not negative.\<close>

definition select :: "'a list \<Rightarrow> nat list \<Rightarrow> error + 'a list" where
  "select documents indices =
     (if \<forall>i \<in> set indices. i < length documents then Inr (map (\<lambda>i. documents ! i) indices)
      else Inl IndexError)"

subsection \<open>Search\<close>

text \<open>
  \<open>search_documents\<close> of \<open>src/file_processing.py\<close>. The index is \<open>None\<close> or a
  \<open>BM25Okapi\<close> object; calling a method of \<open>None\<close> raises \<open>AttributeError\<close>.
  \<open>bm25_scores\<close>, \<open>cosine_sim_scores\<close>, \<open>combined_scores\<close> and
  \<open>unique_top_document_indices\<close> are the variables of that name.
\<close>

definition bm25_scores ::
  "(string \<Rightarrow> string list) \<Rightarrow> string \<Rightarrow> bm25 option \<Rightarrow> error + real list" where
  "bm25_scores tok query index =
     (case index of
        None \<Rightarrow> Inl AttributeError
      | Some ix \<Rightarrow> Inr (get_scores ix (clean_and_tokenize latin1 tok query)))"

definition cosine_sim_scores ::
  "(string \<Rightarrow> string list) \<Rightarrow> string set \<Rightarrow> string \<Rightarrow> document list \<Rightarrow> error + real list" where
  "cosine_sim_scores tok stop query documents =
     (let adocs = map (\<lambda>doc. analyze tok stop (page_content doc)) documents
      in case fit adocs of
           Inl e \<Rightarrow> Inl e
         | Inr m \<Rightarrow>
             Inr (cosine_similarity (tfidf_row m (analyze tok stop query))
                    (map (tfidf_row m) adocs)))"

definition combined_scores ::
  "(string \<Rightarrow> string list) \<Rightarrow> string set \<Rightarrow> string \<Rightarrow> bm25 option \<Rightarrow> document list
     \<Rightarrow> error + real list" where
  "combined_scores tok stop query index documents =
     (case bm25_scores tok query index of
        Inl e \<Rightarrow> Inl e
      | Inr bs \<Rightarrow>
          (case cosine_sim_scores tok stop query documents of
             Inl e \<Rightarrow> Inl e
           | Inr cs \<Rightarrow> np_add (np_scale bs 0.5) (np_scale cs 0.5)))"

definition unique_top_document_indices :: "real list \<Rightarrow> int \<Rightarrow> nat list" where
  "unique_top_document_indices scores n_results =
     slice_to (list_of_set (rev (argsort scores))) n_results"

definition search_documents ::
  "(string \<Rightarrow> string list) \<Rightarrow> string set \<Rightarrow> string \<Rightarrow> bm25 option \<Rightarrow> document list \<Rightarrow> int
     \<Rightarrow> error + document list" where
  "search_documents tok stop query index documents n_results =
     (case combined_scores tok stop query index documents of
        Inl e \<Rightarrow> Inl e
      | Inr scores \<Rightarrow> select documents (unique_top_document_indices scores n_results))"

section \<open>Loading, chunking and indexing\<close>

definition extensions :: "string list" where
  "extensions =
     [''txt'', ''md'', ''markdown'', ''rst'', ''py'', ''js'', ''java'', ''c'', ''cpp'', ''cs'',
      ''go'', ''rb'', ''php'', ''scala'', ''html'', ''htm'', ''xml'', ''json'', ''yaml'', ''yml'',
      ''ini'', ''toml'', ''cfg'', ''conf'', ''sh'', ''bash'', ''css'', ''scss'', ''sql'',
      ''gitignore'', ''dockerignore'', ''editorconfig'', ''ipynb'']"

text \<open>
  The first loop of \<open>load_and_index_files\<close>. The file system is the parameter \<open>loader\<close>:
  for an extension, the documents its loader returns, or \<open>None\<close> when creating or
  running the loader raises (the \<open>except\<close> branch then goes on with the next extension).
  \<open>relpath\<close> is \<open>os.path.relpath\<close> with the repository path as its second argument, and
  \<open>uuid k\<close> is the identifier the \<open>k\<close>-th call of \<open>uuid.uuid4\<close> returns. The two dictionaries
  are association lists in insertion order.
\<close>

record load_state =
  file_type_counts :: "(string \<times> nat) list"
  documents_dict :: "(string \<times> document) list"
  uuid_calls :: nat

definition add_document ::
  "(string \<Rightarrow> string) \<Rightarrow> (nat \<Rightarrow> string) \<Rightarrow> document \<Rightarrow> load_state \<Rightarrow> load_state" where
  "add_document relpath uuid doc st =
     (let relative_path = relpath (source (metadata doc));
          fid = uuid (uuid_calls st);
          doc' = doc\<lparr>metadata := \<lparr>source = relative_path, file_id = fid\<rparr>\<rparr>
      in st\<lparr>documents_dict := AList.update fid doc' (documents_dict st),
             uuid_calls := Suc (uuid_calls st)\<rparr>)"

definition load_extension ::
  "(string \<Rightarrow> document list option) \<Rightarrow> (string \<Rightarrow> string) \<Rightarrow> (nat \<Rightarrow> string) \<Rightarrow> string
     \<Rightarrow> load_state \<Rightarrow> load_state" where
  "load_extension loader relpath uuid ext st =
     (case loader ext of
        None \<Rightarrow> st
      | Some loaded_documents \<Rightarrow>
          if loaded_documents = [] then st
          else fold (add_document relpath uuid) loaded_documents
                 (st\<lparr>file_type_counts :=
                       AList.update ext (length loaded_documents) (file_type_counts st)\<rparr>))"

definition load_documents ::
  "(string \<Rightarrow> document list option) \<Rightarrow> (string \<Rightarrow> string) \<Rightarrow> (nat \<Rightarrow> string) \<Rightarrow> load_state" where
  "load_documents loader relpath uuid =
     fold (load_extension loader relpath uuid) extensions
       \<lparr>file_type_counts = [], documents_dict = [], uuid_calls = 0\<rparr>"

text \<open>
  The second loop. \<open>split_text\<close> is the text splitter's division of one text into chunk
  texts; \<open>split_documents\<close> gives every chunk text the metadata of its document, and the
  loop body then stores the identifier and the path of the document in each chunk.
\<close>

definition split_documents :: "(string \<Rightarrow> string list) \<Rightarrow> document \<Rightarrow> document list" where
  "split_documents split_text doc =
     map (\<lambda>t. \<lparr>page_content = t, metadata = metadata doc\<rparr>) (split_text (page_content doc))"

definition split_one :: "(string \<Rightarrow> string list) \<Rightarrow> document \<Rightarrow> document list" where
  "split_one split_text original_doc =
     map (\<lambda>split_doc.
            split_doc\<lparr>metadata :=
              (metadata split_doc)\<lparr>file_id := file_id (metadata original_doc),
                                    source := source (metadata original_doc)\<rparr>\<rparr>)
         (split_documents split_text original_doc)"

definition split_all :: "(string \<Rightarrow> string list) \<Rightarrow> (string \<times> document) list \<Rightarrow> document list" where
  "split_all split_text ddict = concat (map (\<lambda>(fid, original_doc). split_one split_text original_doc) ddict)"

text \<open>
  The index: \<open>None\<close> unless there is a chunk, else the \<open>BM25Okapi\<close> object built from the
  tokens of every chunk, in chunk order.
\<close>

definition build_index :: "(string \<Rightarrow> string list) \<Rightarrow> document list \<Rightarrow> error + bm25 option" where
  "build_index tok split_docs =
     (if split_docs \<noteq> []
      then (case BM25Okapi (map (\<lambda>doc. clean_and_tokenize latin1 tok (page_content doc)) split_docs) of
              Inl e \<Rightarrow> Inl e
            | Inr ix \<Rightarrow> Inr (Some ix))
      else Inr None)"

text \<open>\<open>load_and_index_files\<close> of \<open>src/file_processing.py\<close>.\<close>

definition load_and_index_files ::
  "(string \<Rightarrow> document list option) \<Rightarrow> (string \<Rightarrow> string) \<Rightarrow> (nat \<Rightarrow> string)
     \<Rightarrow> (string \<Rightarrow> string list) \<Rightarrow> (string \<Rightarrow> string list)
     \<Rightarrow> error + (bm25 option \<times> document list \<times> (string \<times> nat) list \<times> string list)" where
  "load_and_index_files loader relpath uuid split_text tok =
     (let st = load_documents loader relpath uuid;
          split_docs = split_all split_text (documents_dict st)
      in case build_index tok split_docs of
           Inl e \<Rightarrow> Inl e
         | Inr index \<Rightarrow>
             Inr (index, split_docs, file_type_counts st,
                  map (\<lambda>doc. source (metadata doc)) split_docs))"

subsection \<open>The text splitter\<close>

text \<open>
  The text splitter that \<open>load_and_index_files\<close> creates,
  \<open>RecursiveCharacterTextSplitter(chunk_size=3000, chunk_overlap=200)\<close> of \<open>langchain\<close>, is
  not under \<open>src/\<close>. The definitions follow the algorithm of the library for the
  arguments the code leaves at their defaults: the separators are two line feeds, one
  line feed, a space and the empty string, a separator stays at the head of the piece
  behind it, the length of a text is its number of characters, and every chunk is
  stripped of the whitespace around it, a chunk that is empty after that being dropped.

  \<open>strip\<close> is \<open>str.strip()\<close>, and \<open>join_docs\<close> joins the pieces of one chunk: \<open>None\<close> when
  nothing but whitespace is left.
\<close>

definition strip :: "string \<Rightarrow> string" where
  "strip t = rev (dropWhile latin1_space (rev (dropWhile latin1_space t)))"

definition join_docs :: "string list \<Rightarrow> string \<Rightarrow> string option" where
  "join_docs docs separator =
     (let t = strip (join separator docs) in if t = [] then None else Some t)"

text \<open>
  \<open>re.search\<close> and \<open>re.split\<close> for an escaped separator that is not empty, the separator
  kept in front of the piece that follows it; empty pieces are left out. With the empty
  separator the pieces are the characters of the text.
\<close>

fun occurs :: "string \<Rightarrow> string \<Rightarrow> bool" where
  "occurs sep [] = (sep = [])"
| "occurs sep (c # cs) = (strip_prefix sep (c # cs) \<noteq> None \<or> occurs sep cs)"

lemma strip_prefix_shorter:
  "sep \<noteq> [] \<Longrightarrow> strip_prefix sep s = Some r \<Longrightarrow> length r < length s"
  by (cases sep; cases s) (auto split: if_splits dest: strip_prefix_length)

function split_pieces :: "string \<Rightarrow> string \<Rightarrow> string \<Rightarrow> string list" where
  "split_pieces sep acc [] = [rev acc]"
| "split_pieces sep acc (c # cs) =
     (case (if sep = [] then None else strip_prefix sep (c # cs)) of
        Some rest \<Rightarrow> rev acc # split_pieces sep [] rest
      | None \<Rightarrow> split_pieces sep (c # acc) cs)"
  by pat_completeness auto
termination
  by (relation "measure (\<lambda>(sep, acc, s). length s)")
     (auto split: if_splits dest: strip_prefix_shorter)

definition split_text_with_regex :: "string \<Rightarrow> string \<Rightarrow> string list" where
  "split_text_with_regex t separator =
     filter (\<lambda>s. s \<noteq> [])
       (if separator \<noteq> []
        then (case split_pieces separator [] t of
                [] \<Rightarrow> []
              | p # ps \<Rightarrow> p # map (\<lambda>q. separator @ q) ps)
        else map (\<lambda>c. [c]) t)"

text \<open>
  Merging pieces into chunks. \<open>merge_step\<close> is the body of the loop over the pieces, its
  state the chunks made so far, the pieces of the current chunk and their total length.
  When the next piece would make the current chunk longer than the chunk size, the
  current chunk is closed, and \<open>pop_docs\<close> drops pieces from its head until what is left
  is no longer than the overlap and has room for the next piece: that is the start of
  the chunk that follows. The total is the length of the pieces that are left, so it is
  0 when none is left and the loop stops there.
\<close>

fun pop_docs :: "nat \<Rightarrow> nat \<Rightarrow> nat \<Rightarrow> nat \<Rightarrow> nat \<Rightarrow> string list \<Rightarrow> nat \<times> string list" where
  "pop_docs sz ov seplen len tot [] = (tot, [])"
| "pop_docs sz ov seplen len tot (d # ds) =
     (if ov < tot \<or> (sz < tot + len + seplen \<and> 0 < tot)
      then pop_docs sz ov seplen len (tot - (length d + (if ds \<noteq> [] then seplen else 0))) ds
      else (tot, d # ds))"

definition merge_step ::
  "nat \<Rightarrow> nat \<Rightarrow> string \<Rightarrow> string \<Rightarrow> string list \<times> string list \<times> nat \<Rightarrow> string list \<times> string list \<times> nat" where
  "merge_step sz ov separator d st =
     (case st of (docs, current_doc, tot) \<Rightarrow>
        (case (if sz < tot + length d + (if current_doc \<noteq> [] then length separator else 0)
                  \<and> current_doc \<noteq> []
               then (case pop_docs sz ov (length separator) (length d) tot current_doc of
                       (tot', current_doc') \<Rightarrow>
                         (case join_docs current_doc separator of
                            None \<Rightarrow> docs
                          | Some doc \<Rightarrow> docs @ [doc],
                          current_doc', tot'))
               else (docs, current_doc, tot)) of
           (docs', current_doc', tot') \<Rightarrow>
             (docs', current_doc' @ [d],
              tot' + length d + (if current_doc' \<noteq> [] then length separator else 0))))"

definition merge_splits :: "nat \<Rightarrow> nat \<Rightarrow> string list \<Rightarrow> string \<Rightarrow> string list" where
  "merge_splits sz ov splits separator =
     (case fold (merge_step sz ov separator) splits ([], [], 0) of
        (docs, current_doc, tot) \<Rightarrow>
          (case join_docs current_doc separator of None \<Rightarrow> docs | Some doc \<Rightarrow> docs @ [doc]))"

text \<open>
  The recursive splitting. The text is split at the first separator of the list that
  occurs in it (the empty separator occurs in every text). The pieces shorter than the
  chunk size are collected and merged; a piece that is not shorter is split again with
  the separators that remain, \<open>longer\<close>, or is a chunk of its own when none remains.
\<close>

definition split_loop :: "nat \<Rightarrow> nat \<Rightarrow> (string \<Rightarrow> string list) \<Rightarrow> string list \<Rightarrow> string list" where
  "split_loop sz ov longer splits =
     (case fold (\<lambda>s (final_chunks, good_splits).
                   if length s < sz then (final_chunks, good_splits @ [s])
                   else ((if good_splits \<noteq> [] then final_chunks @ merge_splits sz ov good_splits []
                          else final_chunks) @ longer s, []))
             splits ([], []) of
        (final_chunks, good_splits) \<Rightarrow>
          if good_splits \<noteq> [] then final_chunks @ merge_splits sz ov good_splits [] else final_chunks)"

fun split_text_with :: "nat \<Rightarrow> nat \<Rightarrow> string \<Rightarrow> string list \<Rightarrow> string \<Rightarrow> string list" where
  "split_text_with sz ov dflt [] t = split_loop sz ov (\<lambda>p. [p]) (split_text_with_regex t dflt)"
| "split_text_with sz ov dflt (s # rest) t =
     (if s = [] then split_loop sz ov (\<lambda>p. [p]) (split_text_with_regex t [])
      else if occurs s t
        then split_loop sz ov (if rest = [] then (\<lambda>p. [p]) else (\<lambda>p. split_text_with sz ov (last rest) rest p))
               (split_text_with_regex t s)
      else split_text_with sz ov dflt rest t)"

definition separators :: "string list" where
  "separators = [[CHR 0x0A, CHR 0x0A], [CHR 0x0A], '' '', []]"

definition chunk_size :: nat where
  "chunk_size = 3000"

definition chunk_overlap :: nat where
  "chunk_overlap = 200"

text \<open>\<open>text_splitter.split_text\<close>, the splitter of \<open>load_and_index_files\<close>.\<close>

definition recursive_split_text :: "string \<Rightarrow> string list" where
  "recursive_split_text t =
     split_text_with chunk_size chunk_overlap (last separators) separators t"

text \<open>The chunks of a text that fits into one chunk, for the properties below.\<close>

definition stripped_chunk :: "string \<Rightarrow> string list" where
  "stripped_chunk t = (if strip t = [] then [] else [strip t])"

text \<open>
  A normalised score array, as the ranker of the specification takes it: every entry
  lies between 0 and 1, the range of the cosine similarities.
\<close>

definition normalized_scores :: "real list \<Rightarrow> bool" where
  "normalized_scores xs = list_all (\<lambda>x. 0 \<le> x \<and> x \<le> 1) xs"

section \<open>Scores of one chunk\<close>

text \<open>
  The score of a single chunk, written from the chunk's own tokens: the sum over the
  query tokens of the Okapi term score, and the cosine of the angle between the query
  vector and the chunk's vector.
\<close>

definition idf_of :: "bm25 \<Rightarrow> string \<Rightarrow> real" where
  "idf_of ix q = (case map_of (idf ix) q of None \<Rightarrow> 0 | Some v \<Rightarrow> v)"

definition bm25_chunk_score :: "bm25 \<Rightarrow> string list \<Rightarrow> string list \<Rightarrow> real" where
  "bm25_chunk_score ix query toks =
     (\<Sum>q\<leftarrow>query. idf_of ix q *
        (real (count_list toks q) * (1.5 + 1)
           / (real (count_list toks q) + 1.5 * (1 - 0.75 + 0.75 * real (length toks) / avgdl ix))))"

definition cosine_chunk_score :: "tfidf \<Rightarrow> string list \<Rightarrow> string list \<Rightarrow> real" where
  "cosine_chunk_score m query_terms chunk_terms =
     dot (l2_normalize (tfidf_row m query_terms)) (l2_normalize (tfidf_row m chunk_terms))"

section \<open>The example of the specification\<close>

text \<open>
  The two chunks of the end-to-end example, and the words of the example that are on
  scikit-learn's English stop-word list. \<open>index_of\<close> is the index built for a chunk list
  (\<open>None\<close> also when building it raises).
\<close>

definition chunk_A :: document where
  "chunk_A = \<lparr>page_content = ''The quick brown fox jumps'',
              metadata = \<lparr>source = ''a.py'', file_id = ''id-a''\<rparr>\<rparr>"

definition chunk_B :: document where
  "chunk_B = \<lparr>page_content = ''A completely unrelated sentence about oceans'',
              metadata = \<lparr>source = ''b.py'', file_id = ''id-b''\<rparr>\<rparr>"

definition example_stop_words :: "string set" where
  "example_stop_words = {''a'', ''about'', ''the''}"

definition index_of :: "(string \<Rightarrow> string list) \<Rightarrow> document list \<Rightarrow> bm25 option" where
  "index_of tok docs = (case build_index tok docs of Inl e \<Rightarrow> None | Inr index \<Rightarrow> index)"

text \<open>
  A repository with the single file \<open>/repo/src/a.py\<close>: its loader, the relative path of a
  file under \<open>/repo\<close>, and a splitter that cuts a text behind its fifth character.
\<close>

definition example_loader :: "string \<Rightarrow> document list option" where
  "example_loader ext =
     (if ext = ''py''
      then Some [\<lparr>page_content = ''alpha beta'',
                  metadata = \<lparr>source = ''/repo/src/a.py'', file_id = []\<rparr>\<rparr>]
      else Some [])"

definition example_relpath :: "string \<Rightarrow> string" where
  "example_relpath p = drop 6 p"

definition halves :: "string \<Rightarrow> string list" where
  "halves t = [take 5 t, drop 5 t]"

section \<open>Properties of the tokenizer\<close>

lemma word_text_before_lower: "word_text M (sub_digits M (sub_nonword M x))"
  by (auto simp: word_text_def sub_digits_def sub_nonword_def split: if_splits)

lemma clean_lower: "\<exists>s. word_text M s \<and> clean M t = lower M s"
  unfolding clean_def using word_text_before_lower by blast

lemma ascii_punctuation:
  "a \<in> {CHR ''<'', CHR ''>'', CHR ''['', CHR '']'', CHR ''('', CHR '')'', CHR '':'', CHR ''/''}
     \<Longrightarrow> ascii a \<and> \<not> ascii_lower a \<and> a \<noteq> CHR ''_''"
  by (auto simp: ascii_def ascii_lower_def)

text \<open>
  Claim C3, as the code has it. For every input string and every word tokenizer, every
  token is non-empty and made of characters that come out of lower-casing word
  characters that are not decimal digits. It holds no decimal digit and no space, and
  its only ASCII characters are lower-case letters and underscores: none of
  \<open>< > [ ] ( ) : /\<close>, one of which every match of the HTML-tag, bracket, parenthesis and
  URL patterns contains.
\<close>

theorem clean_and_tokenize_tokens:
  assumes "python_lower M" and "word_splitter M word_tokenize"
    and "w \<in> set (clean_and_tokenize M word_tokenize t)"
  shows "w \<noteq> []
     \<and> (\<exists>s. word_text M s \<and> set w \<subseteq> set (lower M s))
     \<and> (\<forall>c \<in> set w.
           \<not> is_decimal M c \<and> c \<noteq> asc M (CHR '' '')
           \<and> (\<forall>a. ascii a \<and> c = asc M a \<longrightarrow> ascii_lower a \<or> a = CHR ''_'')
           \<and> c \<notin> asc M ` {CHR ''<'', CHR ''>'', CHR ''['', CHR '']'', CHR ''('', CHR '')'',
                            CHR '':'', CHR ''/''})"
proof -
  from assms(2,3) have w: "w \<noteq> []" and sub: "set w \<subseteq> set (clean M t) - {asc M (CHR '' '')}"
    by (auto simp: word_splitter_def clean_and_tokenize_def)
  from clean_lower obtain s where s: "word_text M s" and cl: "clean M t = lower M s" by blast
  have chars: "\<not> is_decimal M c \<and> c \<noteq> asc M (CHR '' '')
           \<and> (\<forall>a. ascii a \<and> c = asc M a \<longrightarrow> ascii_lower a \<or> a = CHR ''_'')"
    if "c \<in> set w" for c
  proof -
    from that sub cl have c: "c \<in> set (lower M s)" and sp: "c \<noteq> asc M (CHR '' '')" by auto
    from assms(1) s c have "\<not> is_decimal M c"
      and "\<forall>a. ascii a \<and> c = asc M a \<longrightarrow> ascii_lower a \<or> a = CHR ''_'' \<or> a = CHR '' ''"
      unfolding python_lower_def by blast+
    with sp show ?thesis by blast
  qed
  have punct: "c \<notin> asc M ` {CHR ''<'', CHR ''>'', CHR ''['', CHR '']'', CHR ''('', CHR '')'',
                            CHR '':'', CHR ''/''}"
    if "c \<in> set w" for c
  proof
    assume "c \<in> asc M ` {CHR ''<'', CHR ''>'', CHR ''['', CHR '']'', CHR ''('', CHR '')'',
                            CHR '':'', CHR ''/''}"
    then obtain a where a: "a \<in> {CHR ''<'', CHR ''>'', CHR ''['', CHR '']'', CHR ''('', CHR '')'',
                            CHR '':'', CHR ''/''}" and ca: "c = asc M a" by blast
    from ascii_punctuation [OF a] chars [OF that] ca show False by blast
  qed
  from sub cl have "set w \<subseteq> set (lower M s)" by auto
  with w s chars punct show ?thesis by blast
qed

lemma python_lower_latin1: "python_lower latin1"
proof -
  have "\<not> latin1_decimal (latin1_lower d)
      \<and> (ascii (latin1_lower d) \<longrightarrow>
           ascii_lower (latin1_lower d) \<or> latin1_lower d = CHR ''_'' \<or> latin1_lower d = CHR '' '')"
    if "(latin1_alnum d \<or> d = CHR ''_'') \<and> \<not> latin1_decimal d \<or> d = CHR '' ''" for d
    using that
    by (auto simp: latin1_alnum_def latin1_decimal_def latin1_lower_def ascii_def ascii_lower_def
          Let_def)
  then show ?thesis
    by (auto simp: python_lower_def word_text_def is_word_def latin1_def)
qed

lemma split_acc_tokens:
  "w \<in> set (split_acc acc t) \<Longrightarrow> \<forall>c \<in> set acc. \<not> latin1_space c \<Longrightarrow>
     w \<noteq> [] \<and> set w \<subseteq> (set acc \<union> set t) - {c. latin1_space c}"
proof (induction acc t rule: split_acc.induct)
  case (1 acc)
  then show ?case by (auto split: if_splits)
next
  case (2 acc c cs)
  then show ?case by (auto split: if_splits)
qed

lemma word_splitter_split_words: "word_splitter latin1 split_words"
proof -
  have "latin1_space (CHR '' '')" by (simp add: latin1_space_def)
  then show ?thesis
    unfolding word_splitter_def split_words_def
    using split_acc_tokens [of _ "[]"] by (fastforce simp: latin1_def)
qed

text \<open>
  The theorem at a text with a capital E acute, a tag, a parenthesis, a URL, a bracket,
  digits and capitals, split at spaces.
\<close>

theorem clean_and_tokenize_tokens_witness:
  "python_lower latin1 \<and> word_splitter latin1 split_words
   \<and> clean_and_tokenize latin1 split_words
        (''Caf'' @ [CHR 0xC9] @ '' <b>Docs</b> (v2) at https://x.io/a [1] ok'')
       = [''caf'' @ [CHR 0xE9], ''docs'', ''at'', ''ok'']
   \<and> list_all (\<lambda>c. \<not> latin1_decimal c \<and> c \<noteq> CHR '' ''
           \<and> c \<notin> {CHR ''<'', CHR ''>'', CHR ''['', CHR '']'', CHR ''('', CHR '')'', CHR '':'', CHR ''/''})
        (''caf'' @ [CHR 0xE9])"
proof -
  let ?t = "''Caf'' @ [CHR 0xC9] @ '' <b>Docs</b> (v2) at https://x.io/a [1] ok''"
  have t: "clean_and_tokenize latin1 split_words ?t = [''caf'' @ [CHR 0xE9], ''docs'', ''at'', ''ok'']"
    by code_simp
  have m: "''caf'' @ [CHR 0xE9] \<in> set (clean_and_tokenize latin1 split_words ?t)"
    unfolding t by simp
  from clean_and_tokenize_tokens [OF python_lower_latin1 word_splitter_split_words m]
  have "\<forall>c \<in> set (''caf'' @ [CHR 0xE9]). \<not> is_decimal latin1 c \<and> c \<noteq> asc latin1 (CHR '' '')
           \<and> c \<notin> asc latin1 ` {CHR ''<'', CHR ''>'', CHR ''['', CHR '']'', CHR ''('', CHR '')'',
                            CHR '':'', CHR ''/''}"
    by blast
  then have "list_all (\<lambda>c. \<not> latin1_decimal c \<and> c \<noteq> CHR '' ''
           \<and> c \<notin> {CHR ''<'', CHR ''>'', CHR ''['', CHR '']'', CHR ''('', CHR '')'', CHR '':'', CHR ''/''})
        (''caf'' @ [CHR 0xE9])"
    unfolding list_all_iff by (simp add: latin1_def)
  with python_lower_latin1 word_splitter_split_words t show ?thesis by blast
qed

text \<open>
  Claim C3 as stated fails: the underscore is a word character, so \<open>\W\<close> keeps it, and the
  token of \<open>snake_case\<close> has a character that is not even alphanumeric.
\<close>

theorem clean_and_tokenize_underscore:
  "clean_and_tokenize latin1 split_words ''snake_case'' = [''snake_case'']
   \<and> \<not> latin1_alnum (''snake_case'' ! 5)"
  by code_simp

text \<open>
  Nor is every other character of a token a letter: the superscript two is alphanumeric
  and no decimal digit, so \<open>\W\<close> and \<open>\d+\<close> both keep it.
\<close>

lemma clean_and_tokenize_superscript:
  "clean_and_tokenize latin1 split_words [CHR ''x'', CHR 0xB2, CHR '' '', CHR ''2''] = [[CHR ''x'', CHR 0xB2]]"
  by code_simp

section \<open>Properties of the context assembler\<close>

lemma basename_no_slash: "CHR ''/'' \<notin> set (basename p)"
  using set_takeWhileD [of "CHR ''/''" "\<lambda>c. c \<noteq> CHR ''/''" "rev p"]
  by (auto simp: basename_def)

lemma basename_suffix: "\<exists>d. p = d @ basename p \<and> (d = [] \<or> last d = CHR ''/'')"
proof -
  let ?P = "\<lambda>c. c \<noteq> CHR ''/''"
  have split: "rev p = takeWhile ?P (rev p) @ dropWhile ?P (rev p)" by simp
  then have "p = rev (dropWhile ?P (rev p)) @ basename p"
    unfolding basename_def by (metis rev_append rev_rev_ident)
  moreover have "rev (dropWhile ?P (rev p)) = [] \<or> last (rev (dropWhile ?P (rev p))) = CHR ''/''"
  proof (cases "dropWhile ?P (rev p)")
    case Nil
    then show ?thesis by simp
  next
    case (Cons x xs)
    then have "x = CHR ''/''" using hd_dropWhile [of ?P "rev p"] by auto
    with Cons show ?thesis by simp
  qed
  ultimately show ?thesis by blast
qed

lemma str_nat_digits: "\<forall>c \<in> set (str_nat n). latin1_decimal c"
proof (induction n rule: str_nat.induct)
  case (1 n)
  have d: "latin1_decimal (digit_char k)" if "k < 10" for k
    using that by (simp add: latin1_decimal_def digit_char_def Let_def)
  show ?case
  proof (cases "n < 10")
    case True
    then show ?thesis using d [of n] by (subst str_nat.simps) simp
  next
    case False
    then show ?thesis using 1 d [of "n mod 10"] by (subst str_nat.simps) simp
  qed
qed

lemma format_enumerate:
  "join [CHR 0x0A] (map (\<lambda>(i, doc). str_nat (i + 1) @ ''. '' @ basename (source (metadata doc)) @ '': ''
                          @ page_content doc) (enumerate k docs)) = format_context (Suc k) docs"
  by (induction "Suc k" docs arbitrary: k rule: format_context.induct)
     (simp_all add: rank_line_def)

text \<open>
  Claim C9. \<open>format_documents\<close> returns the renderings of the chunks in their order, the
  chunk at 1-based rank \<open>r\<close> as the decimal of \<open>r\<close>, a dot and a space, the base name of
  its source path, a colon and a space, and its text, with one line feed between two
  renderings. It is a function of the chunk list alone: nothing is scored or changed.
\<close>

theorem format_documents_spec: "format_documents docs = format_context 1 docs"
  unfolding format_documents_def using format_enumerate [of 0 docs] by simp

text \<open>The theorem at the two chunks of the specification's example.\<close>

theorem format_documents_spec_witness:
  "format_documents [chunk_A, chunk_B] =
     ''1. a.py: The quick brown fox jumps'' @ [CHR 0x0A]
       @ ''2. b.py: A completely unrelated sentence about oceans''"
proof -
  have "format_context 1 [chunk_A, chunk_B] =
     ''1. a.py: The quick brown fox jumps'' @ [CHR 0x0A]
       @ ''2. b.py: A completely unrelated sentence about oceans''"
    by code_simp
  with format_documents_spec [of "[chunk_A, chunk_B]"] show ?thesis by simp
qed

section \<open>Properties of the arrays and the index\<close>

lemma set_argsort: "set (argsort xs) = {0..<length xs}"
  by (simp add: argsort_def)

text \<open>
  Whatever order the indices come in, the set gives them back in increasing order: the
  selection does not depend on how \<open>argsort\<close> orders equal scores, nor on the scores.
\<close>

lemma list_of_set_permutation: "set order = {0..<n} \<Longrightarrow> list_of_set (rev order) = [0..<n]"
  by (simp add: list_of_set_def)

lemma list_of_set_argsort: "list_of_set (rev (argsort xs)) = [0..<length xs]"
  by (rule list_of_set_permutation) (rule set_argsort)

lemma unique_top_document_indices_eq:
  "unique_top_document_indices scores n = slice_to [0..<length scores] n"
  by (simp add: unique_top_document_indices_def list_of_set_argsort)

lemma slice_to_take: "slice_to xs n = take (if 0 \<le> n then nat n else length xs - nat (- n)) xs"
  by (simp add: slice_to_def)

lemma take_upt_min: "take k [0..<m] = [0..<min k m]"
  by (rule nth_equalityI) auto

lemma select_take_upt:
  "select docs (take k [0..<m]) =
     (if min k m \<le> length docs then Inr (take (min k m) docs) else Inl IndexError)"
proof (cases "min k m \<le> length docs")
  case True
  have "map (\<lambda>i. docs ! i) [0..<min k m] = take (min k m) docs"
    using True by (intro nth_equalityI) auto
  with True show ?thesis by (auto simp: select_def take_upt_min)
next
  case False
  then have "length docs \<in> set [0..<min k m]" by (simp add: min_def split: if_splits)
  then have "\<not> (\<forall>i \<in> set [0..<min k m]. i < length docs)" by blast
  with False show ?thesis by (simp add: select_def take_upt_min)
qed

lemma map_of_incr:
  "map_of (incr w d) = (map_of d)(w \<mapsto> (case map_of d w of None \<Rightarrow> 1 | Some k \<Rightarrow> k + 1))"
  by (simp add: incr_def update_conv')

lemma map_of_fold_incr:
  "map_of (fold incr doc d) q =
     (if q \<in> set doc then Some (count_list doc q + (case map_of d q of None \<Rightarrow> 0 | Some k \<Rightarrow> k))
      else map_of d q)"
  by (induction doc arbitrary: d) (auto simp: map_of_incr split: option.splits)

lemma map_of_frequencies:
  "map_of (frequencies doc) q = (if q \<in> set doc then Some (count_list doc q) else None)"
  by (simp add: frequencies_def map_of_fold_incr)

lemma frequency_count:
  "(case map_of (frequencies doc) q of None \<Rightarrow> 0 | Some k \<Rightarrow> k) = count_list doc q"
  by (simp add: map_of_frequencies count_list_0_iff)

lemma length_fold_add:
  "\<forall>q. length (f q) = length init \<Longrightarrow>
     length (fold (\<lambda>q score. map2 (+) score (f q)) qs init) = length init"
  by (induction qs arbitrary: init) auto

lemma nth_fold_add:
  fixes init :: "real list"
  shows "\<forall>q. length (f q) = length init \<Longrightarrow> i < length init \<Longrightarrow>
     fold (\<lambda>q score. map2 (+) score (f q)) qs init ! i = init ! i + (\<Sum>q\<leftarrow>qs. f q ! i)"
  by (induction qs arbitrary: init) (auto simp: algebra_simps)

lemma BM25Okapi_fields:
  assumes "BM25Okapi corpus = Inr ix"
  shows "corpus_size ix = length corpus" and "doc_freqs ix = map frequencies corpus"
    and "doc_len ix = map length corpus"
    and "avgdl ix = real (sum_list (map length corpus)) / real (length corpus)"
  using assms by (auto simp: BM25Okapi_def Let_def split: if_splits sum.splits)

lemma build_index_Some:
  assumes "build_index tok docs = Inr (Some ix)"
  shows "BM25Okapi (map (\<lambda>doc. clean_and_tokenize latin1 tok (page_content doc)) docs) = Inr ix"
  using assms by (auto simp: build_index_def split: if_splits sum.splits)

lemma term_score_frequencies:
  "term_score ix q (frequencies toks) (length toks) =
     idf_of ix q * (real (count_list toks q) * (1.5 + 1)
        / (real (count_list toks q) + 1.5 * (1 - 0.75 + 0.75 * real (length toks) / avgdl ix)))"
  by (simp add: term_score_def idf_of_def frequency_count Let_def)

lemma get_scores_aligned:
  assumes "BM25Okapi corpus = Inr ix"
  shows "length (get_scores ix query) = length corpus"
    and "i < length corpus \<Longrightarrow> get_scores ix query ! i = bm25_chunk_score ix query (corpus ! i)"
proof -
  let ?f = "\<lambda>q. map2 (term_score ix q) (doc_freqs ix) (doc_len ix)"
  let ?init = "replicate (corpus_size ix) (0::real)"
  note fields = BM25Okapi_fields [OF assms]
  have len: "\<forall>q. length (?f q) = length ?init" by (simp add: fields)
  show "length (get_scores ix query) = length corpus"
    unfolding get_scores_def using length_fold_add [OF len, of query] by (simp add: fields)
  assume i: "i < length corpus"
  then have i': "i < length ?init" by (simp add: fields)
  have "?f q ! i = term_score ix q (frequencies (corpus ! i)) (length (corpus ! i))" for q
    using i by (simp add: fields)
  then have "(\<Sum>q\<leftarrow>query. ?f q ! i) = bm25_chunk_score ix query (corpus ! i)"
    by (simp add: bm25_chunk_score_def term_score_frequencies)
  then show "get_scores ix query ! i = bm25_chunk_score ix query (corpus ! i)"
    unfolding get_scores_def using nth_fold_add [OF len i', of query] i' by simp
qed

lemma cosine_sim_scores_aligned:
  assumes "cosine_sim_scores tok stop query docs = Inr cs"
  shows "\<exists>m. fit (map (\<lambda>doc. analyze tok stop (page_content doc)) docs) = Inr m
           \<and> length cs = length docs
           \<and> (\<forall>i < length docs. cs ! i =
                 cosine_chunk_score m (analyze tok stop query) (analyze tok stop (page_content (docs ! i))))"
  using assms
  by (auto simp: cosine_sim_scores_def cosine_similarity_def cosine_chunk_score_def Let_def
           split: sum.splits)

lemma np_add_same_length:
  "length xs = length ys \<Longrightarrow> np_add xs ys = Inr (map2 (+) xs ys)"
  by (simp add: np_add_def)

lemma combined_scores_aligned:
  assumes ix: "build_index tok docs = Inr (Some ix)"
    and sc: "combined_scores tok stop query (Some ix) docs = Inr scores"
  shows "\<exists>bs cs. bm25_scores tok query (Some ix) = Inr bs
           \<and> cosine_sim_scores tok stop query docs = Inr cs
           \<and> length bs = length docs \<and> length cs = length docs
           \<and> scores = map2 (+) (np_scale bs 0.5) (np_scale cs 0.5)"
proof -
  let ?bs = "get_scores ix (clean_and_tokenize latin1 tok query)"
  have bs: "bm25_scores tok query (Some ix) = Inr ?bs" by (simp add: bm25_scores_def)
  from sc bs obtain cs where cs: "cosine_sim_scores tok stop query docs = Inr cs"
    and add: "np_add (np_scale ?bs 0.5) (np_scale cs 0.5) = Inr scores"
    by (auto simp: combined_scores_def split: sum.splits)
  have lb: "length ?bs = length docs"
    using get_scores_aligned(1) [OF build_index_Some [OF ix]] by simp
  have lc: "length cs = length docs"
    using cosine_sim_scores_aligned [OF cs] by blast
  from add lb lc have "scores = map2 (+) (np_scale ?bs 0.5) (np_scale cs 0.5)"
    by (simp add: np_add_same_length np_scale_def)
  with bs cs lb lc show ?thesis by blast
qed

lemma combined_scores_length:
  assumes "build_index tok docs = Inr (Some ix)"
    and "combined_scores tok stop query (Some ix) docs = Inr scores"
  shows "length scores = length docs"
  using combined_scores_aligned [OF assms] by (auto simp: np_scale_def)

lemma search_documents_index:
  assumes "search_documents tok stop query index docs n = Inr result"
  shows "\<exists>ix scores. index = Some ix \<and> combined_scores tok stop query (Some ix) docs = Inr scores
           \<and> select docs (unique_top_document_indices scores n) = Inr result"
  using assms
  by (cases index)
     (auto simp: search_documents_def combined_scores_def bm25_scores_def split: sum.splits)

lemma slice_to_upt: "slice_to [0..<m] n = take (if 0 \<le> n then nat n else m - nat (- n)) [0..<m]"
  by (simp add: slice_to_def)

lemma search_documents_prefix:
  assumes bi: "build_index tok docs = Inr index"
    and sd: "search_documents tok stop query index docs n = Inr result"
  shows "result = slice_to docs n"
proof -
  from search_documents_index [OF sd] obtain ix scores where
    ix: "index = Some ix" and sc: "combined_scores tok stop query (Some ix) docs = Inr scores"
    and sel: "select docs (unique_top_document_indices scores n) = Inr result"
    by blast
  have len: "length scores = length docs"
    using combined_scores_length [OF bi [unfolded ix] sc] .
  let ?k = "if 0 \<le> n then nat n else length docs - nat (- n)"
  from sel have "select docs (take ?k [0..<length docs]) = Inr result"
    by (simp add: unique_top_document_indices_eq len slice_to_upt)
  then have "result = take (min ?k (length docs)) docs"
    by (simp add: select_take_upt split: if_splits)
  then show ?thesis by (simp add: slice_to_take min_def)
qed

lemma incr_nonempty: "incr w d \<noteq> []"
  by (cases d) (auto simp: incr_def)

lemma fold_incr_nonempty: "d \<noteq> [] \<or> doc \<noteq> [] \<Longrightarrow> fold incr doc d \<noteq> []"
  by (induction doc arbitrary: d) (auto simp: incr_nonempty)

lemma frequencies_nonempty: "doc \<noteq> [] \<Longrightarrow> frequencies doc \<noteq> []"
  by (simp add: frequencies_def fold_incr_nonempty)

lemma fold_pair_incr_nonempty:
  "nd \<noteq> [] \<or> fr \<noteq> [] \<Longrightarrow> fold (\<lambda>(w, k). incr w) fr nd \<noteq> []"
  by (induction fr arbitrary: nd) (auto simp: incr_nonempty)

lemma fold_counts_nonempty:
  "nd \<noteq> [] \<or> (\<exists>fr \<in> set freqs. fr \<noteq> []) \<Longrightarrow>
     fold (\<lambda>fr nd. fold (\<lambda>(w, k). incr w) fr nd) freqs nd \<noteq> []"
proof (induction freqs arbitrary: nd)
  case Nil
  then show ?case by simp
next
  case (Cons fr freqs)
  show ?case
  proof (cases "nd \<noteq> [] \<or> fr \<noteq> []")
    case True
    then have "fold (\<lambda>(w, k). incr w) fr nd \<noteq> []" by (rule fold_pair_incr_nonempty)
    then show ?thesis using Cons.IH by simp
  next
    case False
    with Cons.prems have "\<exists>fr \<in> set freqs. fr \<noteq> []" by auto
    then show ?thesis using Cons.IH by simp
  qed
qed

lemma BM25Okapi_defined:
  assumes "\<exists>d \<in> set corpus. d \<noteq> []"
  shows "\<exists>ix. BM25Okapi corpus = Inr ix"
proof -
  from assms have ne: "corpus \<noteq> []" by auto
  from assms have "\<exists>fr \<in> set (map frequencies corpus). fr \<noteq> []"
    using frequencies_nonempty by auto
  then have "word_doc_counts (map frequencies corpus) \<noteq> []"
    unfolding word_doc_counts_def by (intro fold_counts_nonempty) blast
  then obtain idfs where "calc_idf (length corpus) (word_doc_counts (map frequencies corpus)) = Inr idfs"
    by (auto simp: calc_idf_def Let_def)
  with ne show ?thesis by (simp add: BM25Okapi_def Let_def)
qed

lemma fit_defined:
  assumes "\<exists>d \<in> set adocs. d \<noteq> []"
  shows "\<exists>m. fit adocs = Inr m"
proof -
  from assms have "concat adocs \<noteq> []" by auto
  then have "set (sort (remdups (concat adocs))) \<noteq> {}" by simp
  then have "sort (remdups (concat adocs)) \<noteq> []" by (metis set_empty)
  then show ?thesis by (simp add: fit_def Let_def)
qed

lemma combined_scores_defined:
  assumes ix: "build_index tok docs = Inr (Some ix)"
    and terms: "\<exists>d \<in> set docs. analyze tok stop (page_content d) \<noteq> []"
  shows "\<exists>scores. combined_scores tok stop query (Some ix) docs = Inr scores
           \<and> length scores = length docs"
proof -
  let ?adocs = "map (\<lambda>doc. analyze tok stop (page_content doc)) docs"
  from terms have "\<exists>d \<in> set ?adocs. d \<noteq> []" by auto
  then obtain m where m: "fit ?adocs = Inr m" using fit_defined by blast
  let ?bs = "get_scores ix (clean_and_tokenize latin1 tok query)"
  let ?cs = "cosine_similarity (tfidf_row m (analyze tok stop query)) (map (tfidf_row m) ?adocs)"
  have lb: "length ?bs = length docs"
    using get_scores_aligned(1) [OF build_index_Some [OF ix]] by simp
  have lc: "length ?cs = length docs" by (simp add: cosine_similarity_def)
  have "combined_scores tok stop query (Some ix) docs = Inr (map2 (+) (np_scale ?bs 0.5) (np_scale ?cs 0.5))"
    using m lb lc
    by (simp add: combined_scores_def bm25_scores_def cosine_sim_scores_def Let_def
          np_add_same_length np_scale_def)
  moreover have "length (map2 (+) (np_scale ?bs 0.5) (np_scale ?cs 0.5)) = length docs"
    using lb lc by (simp add: np_scale_def)
  ultimately show ?thesis by blast
qed

lemma search_documents_of_scores:
  assumes "combined_scores tok stop query index docs = Inr scores"
    and "length scores = length docs"
  shows "search_documents tok stop query index docs n = Inr (slice_to docs n)"
proof -
  let ?k = "if 0 \<le> n then nat n else length docs - nat (- n)"
  have "select docs (unique_top_document_indices scores n) = Inr (take (min ?k (length docs)) docs)"
    by (simp add: unique_top_document_indices_eq assms(2) slice_to_upt select_take_upt)
  also have "take (min ?k (length docs)) docs = slice_to docs n"
    by (simp add: slice_to_take min_def)
  finally show ?thesis using assms(1) by (simp add: search_documents_def)
qed

text \<open>
  With the index of the corpus and a chunk that has a term, a search returns for every
  query: the first \<open>n_results\<close> chunks of the corpus, in corpus order.
\<close>

lemma search_documents_total:
  assumes "build_index tok docs = Inr (Some ix)"
    and "\<exists>d \<in> set docs. analyze tok stop (page_content d) \<noteq> []"
  shows "search_documents tok stop query (Some ix) docs n = Inr (slice_to docs n)"
  using combined_scores_defined [OF assms] search_documents_of_scores by blast

section \<open>The example corpus\<close>

lemma l2_normalize_scale: "\<exists>k>0. l2_normalize v = map (\<lambda>x. x * k) v"
proof (cases "sqrt (sum_list (map (\<lambda>x. x * x) v)) = 0")
  case True
  then have "l2_normalize v = map (\<lambda>x. x * 1) v" by (simp add: l2_normalize_def)
  then show ?thesis by (intro exI [of _ 1]) simp
next
  case False
  let ?n = "sqrt (sum_list (map (\<lambda>x. x * x) v))"
  have "0 \<le> sum_list (map (\<lambda>x. x * x) v)" by (rule sum_list_nonneg) auto
  then have "0 \<le> ?n" by simp
  with False have pos: "0 < 1 / ?n" by simp
  have "l2_normalize v = map (\<lambda>x. x * (1 / ?n)) v"
    using False by (simp add: l2_normalize_def Let_def)
  with pos show ?thesis by blast
qed

lemma dot_scale: "dot (map (\<lambda>x. x * k) u) (map (\<lambda>x. x * l) v) = k * l * dot u v"
proof (induction u arbitrary: v)
  case Nil
  then show ?case by (simp add: dot_def)
next
  case (Cons a u)
  then show ?case by (cases v) (auto simp: dot_def algebra_simps)
qed

lemma dot_normalized: "\<exists>k>0. dot (l2_normalize (l2_normalize u)) (l2_normalize (l2_normalize v)) = k * dot u v"
proof -
  obtain a where a: "0 < a" "l2_normalize u = map (\<lambda>x. x * a) u"
    using l2_normalize_scale [of u] by blast
  obtain a' where a': "0 < a'" "l2_normalize (l2_normalize u) = map (\<lambda>x. x * a') (l2_normalize u)"
    using l2_normalize_scale [of "l2_normalize u"] by blast
  obtain b where b: "0 < b" "l2_normalize v = map (\<lambda>x. x * b) v"
    using l2_normalize_scale [of v] by blast
  obtain b' where b': "0 < b'" "l2_normalize (l2_normalize v) = map (\<lambda>x. x * b') (l2_normalize v)"
    using l2_normalize_scale [of "l2_normalize v"] by blast
  have "l2_normalize (l2_normalize u) = map (\<lambda>x. x * (a * a')) u"
    unfolding a'(2) unfolding a(2) by (simp add: algebra_simps)
  moreover have "l2_normalize (l2_normalize v) = map (\<lambda>x. x * (b * b')) v"
    unfolding b'(2) unfolding b(2) by (simp add: algebra_simps)
  ultimately have "dot (l2_normalize (l2_normalize u)) (l2_normalize (l2_normalize v))
      = (a * a') * (b * b') * dot u v"
    by (simp add: dot_scale)
  moreover have "0 < (a * a') * (b * b')" using a(1) a'(1) b(1) b'(1) by simp
  ultimately show ?thesis by blast
qed

lemma toks_A: "clean_and_tokenize latin1 split_words (page_content chunk_A) = [''the'', ''quick'', ''brown'', ''fox'', ''jumps'']"
  unfolding chunk_A_def by code_simp
lemma toks_B: "clean_and_tokenize latin1 split_words (page_content chunk_B) = [''a'', ''completely'', ''unrelated'', ''sentence'', ''about'', ''oceans'']"
  unfolding chunk_B_def by code_simp
lemma toks_q: "clean_and_tokenize latin1 split_words ''quick fox'' = [''quick'', ''fox'']"
  by code_simp
lemma an_A: "analyze split_words example_stop_words (page_content chunk_A) = [''quick'', ''brown'', ''fox'', ''jumps'']"
  unfolding chunk_A_def example_stop_words_def by code_simp
lemma an_B: "analyze split_words example_stop_words (page_content chunk_B) = [''completely'', ''unrelated'', ''sentence'', ''oceans'']"
  unfolding chunk_B_def example_stop_words_def by code_simp
lemma an_q: "analyze split_words example_stop_words ''quick fox'' = [''quick'', ''fox'']"
  unfolding example_stop_words_def by code_simp

lemma voc_BA: "sort (remdups [''completely'', ''unrelated'', ''sentence'', ''oceans'', ''quick'', ''brown'', ''fox'', ''jumps'']) = [''brown'', ''completely'', ''fox'', ''jumps'', ''oceans'', ''quick'', ''sentence'', ''unrelated'']"
  by code_simp
lemma bm25_BA:
  "\<exists>ix. build_index split_words [chunk_B, chunk_A] = Inr (Some ix)
     \<and> get_scores ix [''quick'', ''fox''] = [0, 0]"
  by (simp add: build_index_def toks_A toks_B BM25Okapi_def calc_idf_def word_doc_counts_def
        frequencies_def incr_def Let_def get_scores_def term_score_def)

lemma cos_BA:
  "\<exists>c>0. cosine_sim_scores split_words example_stop_words ''quick fox'' [chunk_B, chunk_A] = Inr [0, c]"
proof -
  let ?v = "ln (3 / 2) + 1 :: real"
  let ?m = "\<lparr>vocabulary = [''brown'', ''completely'', ''fox'', ''jumps'', ''oceans'', ''quick'', ''sentence'', ''unrelated''],
            idf_vector = [?v, ?v, ?v, ?v, ?v, ?v, ?v, ?v]\<rparr>"
  have v: "0 < ?v" by (simp add: add_pos_pos)
  have fit: "fit [[''completely'', ''unrelated'', ''sentence'', ''oceans''], [''quick'', ''brown'', ''fox'', ''jumps'']] = Inr ?m"
    by (simp add: fit_def voc_BA idf_weight_def Let_def)
  let ?q = "[0, 0, ?v, 0, 0, ?v, 0, 0]" and ?a = "[?v, 0, ?v, ?v, 0, ?v, 0, 0]" and ?b = "[0, ?v, 0, 0, ?v, 0, ?v, ?v]"
  have rq: "tfidf_row ?m [''quick'', ''fox''] = l2_normalize ?q"
    by (simp add: tfidf_row_def tf_weight_def)
  have ra: "tfidf_row ?m [''quick'', ''brown'', ''fox'', ''jumps''] = l2_normalize ?a"
    by (simp add: tfidf_row_def tf_weight_def)
  have rb: "tfidf_row ?m [''completely'', ''unrelated'', ''sentence'', ''oceans''] = l2_normalize ?b"
    by (simp add: tfidf_row_def tf_weight_def)
  obtain k where k: "0 < k" "dot (l2_normalize (l2_normalize ?q)) (l2_normalize (l2_normalize ?b)) = k * dot ?q ?b"
    using dot_normalized [of ?q ?b] by blast
  obtain l where l: "0 < l" "dot (l2_normalize (l2_normalize ?q)) (l2_normalize (l2_normalize ?a)) = l * dot ?q ?a"
    using dot_normalized [of ?q ?a] by blast
  have db: "dot ?q ?b = 0" by (simp add: dot_def)
  have da: "0 < dot ?q ?a" using v by (simp add: dot_def)
  have "cosine_sim_scores split_words example_stop_words ''quick fox'' [chunk_B, chunk_A]
      = Inr [k * dot ?q ?b, l * dot ?q ?a]"
    by (simp add: cosine_sim_scores_def an_A an_B an_q fit cosine_similarity_def rq ra rb k(2) l(2) Let_def
             del: mult_eq_0_iff)
  moreover have "0 < l * dot ?q ?a" using l(1) da by simp
  ultimately show ?thesis using db by auto
qed

section \<open>Properties of the search\<close>

lemma example_index:
  "\<exists>ix. build_index split_words [chunk_B, chunk_A] = Inr (Some ix)
     \<and> index_of split_words [chunk_B, chunk_A] = Some ix
     \<and> get_scores ix [''quick'', ''fox''] = [0, 0]"
  using bm25_BA by (auto simp: index_of_def)

lemma example_combined:
  "\<exists>c. 0 < c \<and> combined_scores split_words example_stop_words ''quick fox''
           (index_of split_words [chunk_B, chunk_A]) [chunk_B, chunk_A] = Inr [0, c]"
proof -
  from example_index obtain ix where ix: "index_of split_words [chunk_B, chunk_A] = Some ix"
    and bs: "get_scores ix [''quick'', ''fox''] = [0, 0]" by blast
  from cos_BA obtain c where c: "0 < c"
    and cs: "cosine_sim_scores split_words example_stop_words ''quick fox'' [chunk_B, chunk_A] = Inr [0, c]"
    by blast
  have "combined_scores split_words example_stop_words ''quick fox'' (Some ix) [chunk_B, chunk_A]
      = Inr [0, c * 0.5]"
    by (simp add: combined_scores_def bm25_scores_def toks_q bs cs np_add_def np_scale_def)
  moreover have "0 < c * 0.5" using c by simp
  ultimately show ?thesis unfolding ix by blast
qed

lemma example_search:
  "search_documents split_words example_stop_words ''quick fox''
     (index_of split_words [chunk_B, chunk_A]) [chunk_B, chunk_A] n = Inr (slice_to [chunk_B, chunk_A] n)"
proof -
  from example_combined obtain c where
    "combined_scores split_words example_stop_words ''quick fox''
           (index_of split_words [chunk_B, chunk_A]) [chunk_B, chunk_A] = Inr [0, c]" by blast
  then show ?thesis by (rule search_documents_of_scores) simp
qed

text \<open>
  The example as the specification gives it, chunk A indexed before chunk B: the search
  returns A before B, the order of the corpus.
\<close>

lemma example_spec_order:
  "search_documents split_words example_stop_words ''quick fox''
     (index_of split_words [chunk_A, chunk_B]) [chunk_A, chunk_B] 5 = Inr [chunk_A, chunk_B]"
proof -
  have "\<exists>d \<in> set (map (\<lambda>doc. clean_and_tokenize latin1 split_words (page_content doc)) [chunk_A, chunk_B]). d \<noteq> []"
    by (simp add: toks_A)
  from BM25Okapi_defined [OF this] obtain ix where
    ix: "build_index split_words [chunk_A, chunk_B] = Inr (Some ix)"
    by (auto simp: build_index_def)
  then have io: "index_of split_words [chunk_A, chunk_B] = Some ix" by (simp add: index_of_def)
  have "\<exists>d \<in> set [chunk_A, chunk_B]. analyze split_words example_stop_words (page_content d) \<noteq> []"
    by (simp add: an_A)
  from search_documents_total [OF ix this, of "''quick fox''" 5] show ?thesis
    unfolding io by (simp add: slice_to_def)
qed

text \<open>
  Claim C1 at a failing input. With chunk B indexed before chunk A, the query
  \<open>quick fox\<close> gives chunk B the combined score 0 and chunk A a positive one, yet a search
  for the single best chunk returns chunk B: the indices go through a set, which gives
  them back in increasing order, so the result is the head of the corpus and not the
  head of the ranking.
\<close>

theorem search_documents_rank_lost:
  "search_documents split_words example_stop_words ''quick fox''
     (index_of split_words [chunk_B, chunk_A]) [chunk_B, chunk_A] 1 = Inr [chunk_B]
   \<and> (\<exists>c. 0 < c \<and> combined_scores split_words example_stop_words ''quick fox''
           (index_of split_words [chunk_B, chunk_A]) [chunk_B, chunk_A] = Inr [0, c])"
  using example_combined example_search [of 1] by (simp add: slice_to_def)

text \<open>
  Claim C2. For the index of the corpus and a number \<open>n_results\<close> of results, a search that
  returns selects its chunks by indices that are pairwise distinct, lie in the corpus and
  are at most \<open>n_results\<close> many; when the corpus has fewer than \<open>n_results\<close> chunks the
  indices are all indices of the corpus, each once. A number of results is not negative.
\<close>

theorem search_documents_unique:
  assumes bi: "build_index tok docs = Inr index"
    and sd: "search_documents tok stop query index docs n = Inr result"
    and n: "0 \<le> n"
  shows "\<exists>scores. combined_scores tok stop query index docs = Inr scores
     \<and> result = map (\<lambda>i. docs ! i) (unique_top_document_indices scores n)
     \<and> distinct (unique_top_document_indices scores n)
     \<and> set (unique_top_document_indices scores n) \<subseteq> {0..<length docs}
     \<and> int (length (unique_top_document_indices scores n)) \<le> n
     \<and> int (length result) \<le> n
     \<and> (int (length docs) < n \<longrightarrow> unique_top_document_indices scores n = [0..<length docs])"
proof -
  from search_documents_index [OF sd] obtain ix scores where
    ix: "index = Some ix" and sc: "combined_scores tok stop query (Some ix) docs = Inr scores"
    and sel: "select docs (unique_top_document_indices scores n) = Inr result"
    by blast
  have len: "length scores = length docs"
    using combined_scores_length [OF bi [unfolded ix] sc] .
  let ?idx = "unique_top_document_indices scores n"
  have idx: "?idx = [0..<min (nat n) (length docs)]"
    using n by (simp add: unique_top_document_indices_eq len slice_to_def take_upt_min)
  from sel have res: "result = map (\<lambda>i. docs ! i) ?idx"
    by (auto simp: select_def split: if_splits)
  have "int (length ?idx) \<le> n" using n unfolding idx by simp
  moreover have "int (length result) \<le> n" using n unfolding res idx by simp
  moreover have "int (length docs) < n \<longrightarrow> ?idx = [0..<length docs]"
    unfolding idx by (auto simp: min_def)
  moreover have "distinct ?idx" and "set ?idx \<subseteq> {0..<length docs}" unfolding idx by auto
  ultimately show ?thesis using sc res unfolding ix by blast
qed

text \<open>The theorem at the example corpus, chunk B first, for five results.\<close>

theorem search_documents_unique_witness:
  "build_index split_words [chunk_B, chunk_A] = Inr (index_of split_words [chunk_B, chunk_A])
   \<and> search_documents split_words example_stop_words ''quick fox''
        (index_of split_words [chunk_B, chunk_A]) [chunk_B, chunk_A] 5 = Inr [chunk_B, chunk_A]
   \<and> (0::int) \<le> 5
   \<and> (\<exists>scores. combined_scores split_words example_stop_words ''quick fox''
          (index_of split_words [chunk_B, chunk_A]) [chunk_B, chunk_A] = Inr scores
        \<and> unique_top_document_indices scores 5 = [0, 1]
        \<and> distinct (unique_top_document_indices scores 5))"
proof -
  from example_index have bi:
    "build_index split_words [chunk_B, chunk_A] = Inr (index_of split_words [chunk_B, chunk_A])"
    by auto
  have sd: "search_documents split_words example_stop_words ''quick fox''
        (index_of split_words [chunk_B, chunk_A]) [chunk_B, chunk_A] 5 = Inr [chunk_B, chunk_A]"
    using example_search [of 5] by (simp add: slice_to_def)
  have n: "(0::int) \<le> 5" by simp
  from search_documents_unique [OF bi sd n] obtain scores where
    "combined_scores split_words example_stop_words ''quick fox''
          (index_of split_words [chunk_B, chunk_A]) [chunk_B, chunk_A] = Inr scores"
    and "distinct (unique_top_document_indices scores 5)"
    and "int (length [chunk_B, chunk_A]) < 5 \<longrightarrow> unique_top_document_indices scores 5 = [0..<length [chunk_B, chunk_A]]"
    by blast
  moreover have "[0..<length [chunk_B, chunk_A]] = [0, 1]" by (simp add: upt_rec)
  ultimately show ?thesis using bi sd by auto
qed

text \<open>
  Claim C5. For the index of the corpus, the array of lexical scores and the array of
  cosine similarities have the length of the corpus, and entry \<open>i\<close> of each is the score
  of chunk \<open>i\<close>: the Okapi sum over the query tokens for the tokens of chunk \<open>i\<close>, and the
  cosine between the query vector and the vector of chunk \<open>i\<close>.
\<close>

theorem score_arrays_aligned:
  assumes ix: "build_index tok docs = Inr (Some ix)"
    and bs: "bm25_scores tok query (Some ix) = Inr bs"
    and cs: "cosine_sim_scores tok stop query docs = Inr cs"
  shows "length bs = length docs \<and> length cs = length docs
     \<and> (\<exists>m. fit (map (\<lambda>doc. analyze tok stop (page_content doc)) docs) = Inr m
          \<and> (\<forall>i < length docs.
                bs ! i = bm25_chunk_score ix (clean_and_tokenize latin1 tok query)
                           (clean_and_tokenize latin1 tok (page_content (docs ! i)))
              \<and> cs ! i = cosine_chunk_score m (analyze tok stop query)
                           (analyze tok stop (page_content (docs ! i)))))"
proof -
  let ?corpus = "map (\<lambda>doc. clean_and_tokenize latin1 tok (page_content doc)) docs"
  note okapi = build_index_Some [OF ix]
  from bs have b: "bs = get_scores ix (clean_and_tokenize latin1 tok query)"
    by (simp add: bm25_scores_def)
  have lb: "length bs = length docs"
    unfolding b using get_scores_aligned(1) [OF okapi] by simp
  have nb: "bs ! i = bm25_chunk_score ix (clean_and_tokenize latin1 tok query)
                           (clean_and_tokenize latin1 tok (page_content (docs ! i)))"
    if "i < length docs" for i
    unfolding b using get_scores_aligned(2) [OF okapi, of i] that by simp
  from cosine_sim_scores_aligned [OF cs] lb nb show ?thesis by blast
qed

text \<open>The theorem at the example corpus, chunk B first.\<close>

theorem score_arrays_aligned_witness:
  "\<exists>ix bs cs. build_index split_words [chunk_B, chunk_A] = Inr (Some ix)
     \<and> bm25_scores split_words ''quick fox'' (Some ix) = Inr bs
     \<and> cosine_sim_scores split_words example_stop_words ''quick fox'' [chunk_B, chunk_A] = Inr cs
     \<and> length bs = 2 \<and> length cs = 2
     \<and> bs ! 1 = bm25_chunk_score ix [''quick'', ''fox''] [''the'', ''quick'', ''brown'', ''fox'', ''jumps'']"
proof -
  from example_index obtain ix where ix: "build_index split_words [chunk_B, chunk_A] = Inr (Some ix)"
    by blast
  obtain bs where bs: "bm25_scores split_words ''quick fox'' (Some ix) = Inr bs"
    by (simp add: bm25_scores_def)
  from cos_BA obtain cs where
    cs: "cosine_sim_scores split_words example_stop_words ''quick fox'' [chunk_B, chunk_A] = Inr cs"
    by blast
  from score_arrays_aligned [OF ix bs cs]
  have "length bs = 2" and "length cs = 2"
    and "bs ! 1 = bm25_chunk_score ix (clean_and_tokenize latin1 split_words ''quick fox'')
                    (clean_and_tokenize latin1 split_words (page_content ([chunk_B, chunk_A] ! 1)))"
    by auto
  with ix bs cs show ?thesis by (auto simp: toks_q toks_A)
qed

text \<open>
  Claim C6, as the code has it. For the index of the corpus, the combined array has the
  length of the corpus and its entry for a chunk is 0.5 times the chunk's lexical score
  plus 0.5 times its cosine similarity, the two arrays being those that the index and the
  vectorizer return: neither is normalised or rescaled before the sum.
\<close>

theorem combined_scores_average:
  assumes ix: "build_index tok docs = Inr (Some ix)"
    and sc: "combined_scores tok stop query (Some ix) docs = Inr scores"
  shows "\<exists>bs cs. bm25_scores tok query (Some ix) = Inr bs
     \<and> cosine_sim_scores tok stop query docs = Inr cs
     \<and> length scores = length docs
     \<and> (\<forall>i < length docs. scores ! i = 0.5 * bs ! i + 0.5 * cs ! i)"
proof -
  from combined_scores_aligned [OF ix sc] obtain bs cs where
    bs: "bm25_scores tok query (Some ix) = Inr bs"
    and cs: "cosine_sim_scores tok stop query docs = Inr cs"
    and lb: "length bs = length docs" and lc: "length cs = length docs"
    and eq: "scores = map2 (+) (np_scale bs 0.5) (np_scale cs 0.5)"
    by blast
  have "scores ! i = 0.5 * bs ! i + 0.5 * cs ! i" if "i < length docs" for i
    unfolding eq using that lb lc by (simp add: np_scale_def)
  moreover have "length scores = length docs" unfolding eq using lb lc by (simp add: np_scale_def)
  ultimately show ?thesis using bs cs by blast
qed

text \<open>The theorem at the example corpus, chunk B first.\<close>

theorem combined_scores_average_witness:
  "\<exists>ix scores bs cs. build_index split_words [chunk_B, chunk_A] = Inr (Some ix)
     \<and> combined_scores split_words example_stop_words ''quick fox'' (Some ix) [chunk_B, chunk_A]
          = Inr scores
     \<and> bm25_scores split_words ''quick fox'' (Some ix) = Inr bs
     \<and> cosine_sim_scores split_words example_stop_words ''quick fox'' [chunk_B, chunk_A] = Inr cs
     \<and> scores ! 0 = 0.5 * bs ! 0 + 0.5 * cs ! 0
     \<and> scores ! 1 = 0.5 * bs ! 1 + 0.5 * cs ! 1"
proof -
  from example_index obtain ix where ix: "build_index split_words [chunk_B, chunk_A] = Inr (Some ix)"
    and io: "index_of split_words [chunk_B, chunk_A] = Some ix"
    by blast
  from example_combined obtain c where
    sc: "combined_scores split_words example_stop_words ''quick fox'' (Some ix) [chunk_B, chunk_A]
          = Inr [0, c]"
    unfolding io by blast
  from combined_scores_average [OF ix sc] obtain bs cs where
    bs: "bm25_scores split_words ''quick fox'' (Some ix) = Inr bs"
    and cs: "cosine_sim_scores split_words example_stop_words ''quick fox'' [chunk_B, chunk_A] = Inr cs"
    and av: "\<forall>i < length [chunk_B, chunk_A]. [0, c] ! i = 0.5 * bs ! i + 0.5 * cs ! i"
    by blast
  have "[0, c] ! 0 = 0.5 * bs ! 0 + 0.5 * cs ! 0" using av [rule_format, of 0] by simp
  moreover have "[0, c] ! 1 = 0.5 * bs ! 1 + 0.5 * cs ! 1" using av [rule_format, of 1] by simp
  ultimately show ?thesis using ix sc bs cs by blast
qed

lemma toks_the: "clean_and_tokenize latin1 split_words ''the'' = [''the'']"
  by code_simp
lemma an_the: "analyze split_words example_stop_words ''the'' = []"
  unfolding example_stop_words_def by code_simp
lemma voc_A: "sort (remdups [''quick'', ''brown'', ''fox'', ''jumps'']) = [''brown'', ''fox'', ''jumps'', ''quick'']"
  by code_simp

lemma bm25_A:
  "\<exists>ix. build_index split_words [chunk_A] = Inr (Some ix)
     \<and> get_scores ix [''the''] = [(ln (1 / 2) - ln (3 / 2)) / 4]"
  by (simp add: build_index_def toks_A BM25Okapi_def calc_idf_def word_doc_counts_def
        frequencies_def incr_def Let_def get_scores_def term_score_def)

lemma dot_zeros: "\<forall>x \<in> set u. x = 0 \<Longrightarrow> dot u v = 0"
proof (induction u arbitrary: v)
  case Nil
  then show ?case by (simp add: dot_def)
next
  case (Cons a u)
  then show ?case by (cases v) (simp_all add: dot_def)
qed

lemma cos_A: "cosine_sim_scores split_words example_stop_words ''the'' [chunk_A] = Inr [0]"
proof -
  let ?m = "\<lparr>vocabulary = [''brown'', ''fox'', ''jumps'', ''quick''], idf_vector = [1, 1, 1, 1 :: real]\<rparr>"
  have fit: "fit [[''quick'', ''brown'', ''fox'', ''jumps'']] = Inr ?m"
    by (simp add: fit_def voc_A idf_weight_def Let_def)
  have rq: "tfidf_row ?m [] = [0, 0, 0, 0]"
    by (simp add: tfidf_row_def tf_weight_def l2_normalize_def)
  have z: "l2_normalize [0, 0, 0, 0] = [0, 0, 0, 0]"
    by (simp add: l2_normalize_def)
  have "dot [0, 0, 0, 0] v = 0" for v
    by (rule dot_zeros) simp
  then show ?thesis
    by (simp add: cosine_sim_scores_def an_A an_the fit cosine_similarity_def rq z Let_def)
qed

text \<open>
  Claim C6 as stated fails: the arrays are not normalised before they are added. For the
  corpus of chunk A alone and the query \<open>the\<close>, the lexical score of the chunk is a quarter
  of \<open>ln (1/2) - ln (3/2)\<close>, a negative number above \<open>-1\<close>: the lexical array is no array of
  numbers between 0 and 1, nor one of norm 1. It goes into the sum as it is, and the
  combined score of the chunk is negative.
\<close>

theorem combined_scores_not_normalized:
  "bm25_scores split_words ''the'' (index_of split_words [chunk_A])
     = Inr [(ln (1 / 2) - ln (3 / 2)) / 4]
   \<and> cosine_sim_scores split_words example_stop_words ''the'' [chunk_A] = Inr [0]
   \<and> combined_scores split_words example_stop_words ''the'' (index_of split_words [chunk_A]) [chunk_A]
     = Inr [(ln (1 / 2) - ln (3 / 2)) / 8]
   \<and> \<not> normalized_scores [(ln (1 / 2) - ln (3 / 2)) / 4]
   \<and> \<bar>(ln (1 / 2) - ln (3 / 2)) / 4\<bar> < (1 :: real)
   \<and> (ln (1 / 2) - ln (3 / 2)) / 8 < (0 :: real)"
proof -
  let ?x = "(ln (1 / 2) - ln (3 / 2)) / 4 :: real"
  from bm25_A obtain ix where ix: "index_of split_words [chunk_A] = Some ix"
    and bs: "get_scores ix [''the''] = [?x]"
    by (auto simp: index_of_def)
  have b: "bm25_scores split_words ''the'' (Some ix) = Inr [?x]"
    by (simp add: bm25_scores_def toks_the bs)
  have c: "combined_scores split_words example_stop_words ''the'' (Some ix) [chunk_A]
      = Inr [(ln (1 / 2) - ln (3 / 2)) / 8]"
    unfolding combined_scores_def b cos_A by (simp add: np_add_def np_scale_def)
  have neg: "?x < 0" by simp
  have "ln (3 :: real) \<le> 3 - 1" by (rule ln_le_minus_one) simp
  then have low: "- 1 < ?x" by (simp add: ln_div)
  from neg have nn: "\<not> normalized_scores [?x]" by (simp add: normalized_scores_def)
  from neg low have ab: "\<bar>?x\<bar> < 1" by simp
  from neg have "(ln (1 / 2) - ln (3 / 2)) / 8 < (0 :: real)" by simp
  with b c nn ab show ?thesis unfolding ix using cos_A by blast
qed

section \<open>Properties of loading and chunking\<close>

text \<open>
  Claim C4, as the code has it. When the loop over the documents produces no chunk,
  \<open>load_and_index_files\<close> returns without an error, with \<open>None\<close> as the index and
  empty lists of chunks and file names; a search with the index \<open>None\<close> raises
  \<open>AttributeError\<close>, for every query, chunk list and number of results.
\<close>

theorem empty_corpus_index_none:
  assumes "split_all split_text (documents_dict (load_documents loader relpath uuid)) = []"
  shows "load_and_index_files loader relpath uuid split_text tok
           = Inr (None, [], file_type_counts (load_documents loader relpath uuid), [])
     \<and> build_index tok [] = Inr None
     \<and> search_documents tok stop query None docs n = Inl AttributeError"
  using assms
  by (simp add: load_and_index_files_def build_index_def search_documents_def combined_scores_def
        bm25_scores_def Let_def)

lemma load_extension_empty: "load_extension (\<lambda>ext. Some []) relpath uuid ext st = st"
  by (simp add: load_extension_def)

lemma load_documents_empty:
  "load_documents (\<lambda>ext. Some []) relpath uuid
     = \<lparr>file_type_counts = [], documents_dict = [], uuid_calls = 0\<rparr>"
proof -
  have "fold (load_extension (\<lambda>ext. Some []) relpath uuid) exts st = st" for exts st
    by (induction exts) (simp_all add: load_extension_empty)
  then show ?thesis by (simp add: load_documents_def)
qed

text \<open>The theorem for a repository in which no loader finds a document.\<close>

theorem empty_corpus_index_none_witness:
  "split_all recursive_split_text (documents_dict (load_documents (\<lambda>ext. Some []) id str_nat)) = []
   \<and> load_and_index_files (\<lambda>ext. Some []) id str_nat recursive_split_text split_words
        = Inr (None, [], [], [])
   \<and> search_documents split_words example_stop_words ''quick fox'' None [] 5 = Inl AttributeError"
proof -
  have e: "split_all recursive_split_text (documents_dict (load_documents (\<lambda>ext. Some []) id str_nat)) = []"
    by (simp add: load_documents_empty split_all_def)
  from empty_corpus_index_none [OF e] show ?thesis
    using e by (simp add: load_documents_empty)
qed

text \<open>
  Claim C4 as stated fails: the index of the empty chunk list is \<open>None\<close>, and the search
  raises instead of returning the empty list.
\<close>

theorem empty_corpus_search_raises:
  "build_index split_words [] = Inr None
   \<and> search_documents split_words example_stop_words ''quick fox'' None [] 5 = Inl AttributeError
   \<and> search_documents split_words example_stop_words ''quick fox'' None [] 5 \<noteq> Inr []"
  by (simp add: build_index_def search_documents_def combined_scores_def bm25_scores_def)

lemma join_empty: "join [] xs = concat xs"
  by (induction "[] :: string" xs rule: join.induct) simp_all

lemma fold_merge_step_fits:
  "tot + sum_list (map length xs) \<le> sz \<Longrightarrow>
     fold (merge_step sz ov []) xs (docs, cur, tot) = (docs, cur @ xs, tot + sum_list (map length xs))"
proof (induction xs arbitrary: cur tot)
  case Nil
  then show ?case by simp
next
  case (Cons x xs)
  from Cons.prems have fits: "\<not> sz < tot + length x" and rest: "(tot + length x) + sum_list (map length xs) \<le> sz"
    by simp_all
  have c: "(sz < tot + length x + (if cur \<noteq> [] then length ([] :: string) else 0) \<and> cur \<noteq> []) = False"
    using fits by simp
  have step: "merge_step sz ov [] x (docs, cur, tot) = (docs, cur @ [x], tot + length x)"
    unfolding merge_step_def prod.case c if_False by simp
  have "fold (merge_step sz ov []) (x # xs) (docs, cur, tot)
      = fold (merge_step sz ov []) xs (merge_step sz ov [] x (docs, cur, tot))" by simp
  also have "\<dots> = fold (merge_step sz ov []) xs (docs, cur @ [x], tot + length x)"
    by (simp only: step)
  also have "\<dots> = (docs, (cur @ [x]) @ xs, (tot + length x) + sum_list (map length xs))"
    by (rule Cons.IH [OF rest])
  finally show ?case by (simp add: add.assoc)
qed

lemma merge_splits_fits:
  assumes "sum_list (map length xs) \<le> sz"
  shows "merge_splits sz ov xs [] = stripped_chunk (concat xs)"
proof -
  have "fold (merge_step sz ov []) xs ([], [], 0) = ([], xs, sum_list (map length xs))"
    using fold_merge_step_fits [of 0 xs sz ov "[]" "[]"] assms by simp
  then show ?thesis
    by (simp add: merge_splits_def join_docs_def join_empty stripped_chunk_def Let_def)
qed

lemma strip_prefix_append: "strip_prefix sep s = Some r \<Longrightarrow> s = sep @ r"
  by (induction sep s rule: strip_prefix.induct) (auto split: if_splits)

lemma split_pieces_nonempty: "split_pieces sep acc t \<noteq> []"
  by (induction sep acc t rule: split_pieces.induct) (auto split: option.splits)

lemma split_pieces_concat:
  "split_pieces sep acc t = p # ps \<Longrightarrow> rev acc @ t = p @ concat (map (\<lambda>q. sep @ q) ps)"
proof (induction sep acc t arbitrary: p ps rule: split_pieces.induct)
  case (1 sep acc)
  then show ?case by simp
next
  case (2 sep acc c cs)
  show ?case
  proof (cases "if sep = [] then None else strip_prefix sep (c # cs)")
    case None
    with 2 show ?thesis by simp
  next
    case (Some rest)
    then have sp: "strip_prefix sep (c # cs) = Some rest" by (simp split: if_splits)
    from Some "2.prems" have p: "p = rev acc" and ps: "ps = split_pieces sep [] rest" by simp_all
    obtain q qs where q: "split_pieces sep [] rest = q # qs"
      using split_pieces_nonempty [of sep "[]" rest] by (cases "split_pieces sep [] rest") auto
    from "2.IH"(2) [OF Some q] have "rest = q @ concat (map (\<lambda>q. sep @ q) qs)" by simp
    with strip_prefix_append [OF sp] p ps q show ?thesis by simp
  qed
qed

lemma concat_filter_nonempty: "concat (filter (\<lambda>s. s \<noteq> []) xs) = concat xs"
  by (induction xs) auto

lemma split_text_with_regex_concat: "concat (split_text_with_regex t sep) = t"
proof (cases "sep = []")
  case True
  then show ?thesis by (simp add: split_text_with_regex_def concat_filter_nonempty)
next
  case False
  obtain p ps where pp: "split_pieces sep [] t = p # ps"
    using split_pieces_nonempty [of sep "[]" t] by (cases "split_pieces sep [] t") auto
  from split_pieces_concat [OF pp] have "t = p @ concat (map (\<lambda>q. sep @ q) ps)" by simp
  with False pp show ?thesis by (simp add: split_text_with_regex_def concat_filter_nonempty)
qed

lemma split_text_with_regex_nonempty: "s \<in> set (split_text_with_regex t sep) \<Longrightarrow> s \<noteq> []"
  by (simp add: split_text_with_regex_def)

lemma sum_length_zero: "sum_list (map length xs) = 0 \<Longrightarrow> \<forall>s \<in> set xs. s \<noteq> [] \<Longrightarrow> xs = []"
  by (cases xs) auto

lemma pieces_small_or_whole:
  assumes ne: "\<forall>s \<in> set xs. s \<noteq> []" and len: "length (concat xs) \<le> sz"
  shows "(\<forall>s \<in> set xs. length s < sz) \<or> (\<exists>x. xs = [x] \<and> length x = sz)"
proof (cases "\<forall>s \<in> set xs. length s < sz")
  case True
  then show ?thesis by simp
next
  case False
  then obtain x where x: "x \<in> set xs" and big: "sz \<le> length x" by (auto simp: not_less)
  from x obtain as bs where xs: "xs = as @ x # bs" by (auto dest: split_list)
  have total: "length (concat xs) = sum_list (map length as) + length x + sum_list (map length bs)"
    unfolding xs by (simp add: length_concat)
  from total len big have za: "sum_list (map length as) = 0" by linarith
  from total len big have zb: "sum_list (map length bs) = 0" by linarith
  from total len big have lx: "length x = sz" by linarith
  from ne xs have nea: "\<forall>s \<in> set as. s \<noteq> []" and neb: "\<forall>s \<in> set bs. s \<noteq> []" by simp_all
  have "as = []" by (rule sum_length_zero [OF za nea])
  moreover have "bs = []" by (rule sum_length_zero [OF zb neb])
  ultimately have "xs = [x]" using xs by simp
  with lx show ?thesis by simp
qed

lemma fold_split_loop_small:
  "\<forall>s \<in> set xs. length s < sz \<Longrightarrow>
     fold (\<lambda>s (final_chunks, good_splits).
                   if length s < sz then (final_chunks, good_splits @ [s])
                   else ((if good_splits \<noteq> [] then final_chunks @ merge_splits sz ov good_splits []
                          else final_chunks) @ longer s, []))
       xs (final, good) = (final, good @ xs)"
  by (induction xs arbitrary: good) simp_all

lemma strip_Nil: "strip [] = []"
  by (simp add: strip_def)

lemma split_loop_single: "\<not> length x < sz \<Longrightarrow> split_loop sz ov longer [x] = longer x"
  by (simp add: split_loop_def)

lemma split_loop_short:
  assumes ne: "\<forall>s \<in> set xs. s \<noteq> []" and len: "length (concat xs) \<le> sz"
    and longer: "longer (concat xs) = stripped_chunk (concat xs)"
  shows "split_loop sz ov longer xs = stripped_chunk (concat xs)"
proof -
  from pieces_small_or_whole [OF ne len] show ?thesis
  proof
    assume small: "\<forall>s \<in> set xs. length s < sz"
    from len have "sum_list (map length xs) \<le> sz" by (simp add: length_concat)
    from merge_splits_fits [OF this] have m: "merge_splits sz ov xs [] = stripped_chunk (concat xs)" .
    show ?thesis
      unfolding split_loop_def fold_split_loop_small [OF small]
      using m by (simp add: stripped_chunk_def strip_Nil)
  next
    assume "\<exists>x. xs = [x] \<and> length x = sz"
    then obtain x where xs: "xs = [x]" and big: "\<not> length x < sz" by auto
    have "split_loop sz ov longer [x] = longer x"
      by (rule split_loop_single [OF big])
    then show ?thesis using longer xs by simp
  qed
qed

lemma split_loop_chars:
  assumes "1 < sz" and "length t \<le> sz"
  shows "split_loop sz ov longer (split_text_with_regex t []) = stripped_chunk t"
proof -
  let ?xs = "split_text_with_regex t []"
  have small: "\<forall>s \<in> set ?xs. length s < sz"
    using assms(1) by (auto simp: split_text_with_regex_def)
  have c: "concat ?xs = t" by (rule split_text_with_regex_concat)
  from assms(2) c have "sum_list (map length ?xs) \<le> sz" by (simp add: length_concat [symmetric])
  from merge_splits_fits [OF this] c have m: "merge_splits sz ov ?xs [] = stripped_chunk t" by simp
  show ?thesis
    unfolding split_loop_def fold_split_loop_small [OF small]
    using m c by (auto simp: stripped_chunk_def strip_Nil)
qed

lemma split_text_with_short:
  assumes "1 < sz"
  shows "seps \<noteq> [] \<Longrightarrow> last seps = [] \<Longrightarrow> length t \<le> sz \<Longrightarrow>
     split_text_with sz ov dflt seps t = stripped_chunk t"
proof (induction seps arbitrary: dflt t)
  case Nil
  then show ?case by simp
next
  case (Cons s rest)
  show ?case
  proof (cases "s = []")
    case True
    then show ?thesis using split_loop_chars [OF assms Cons.prems(3)] by simp
  next
    case False
    with Cons.prems have rest: "rest \<noteq> []" and lr: "last rest = []" by (auto split: if_splits)
    show ?thesis
    proof (cases "occurs s t")
      case True
      let ?xs = "split_text_with_regex t s"
      have c: "concat ?xs = t" by (rule split_text_with_regex_concat)
      have ne: "\<forall>p \<in> set ?xs. p \<noteq> []" using split_text_with_regex_nonempty by blast
      have "split_loop sz ov (\<lambda>p. split_text_with sz ov (last rest) rest p) ?xs
          = stripped_chunk (concat ?xs)"
      proof (rule split_loop_short [OF ne])
        show "length (concat ?xs) \<le> sz" using c Cons.prems(3) by simp
        show "split_text_with sz ov (last rest) rest (concat ?xs) = stripped_chunk (concat ?xs)"
          using Cons.IH [OF rest lr, of "concat ?xs" "last rest"] c Cons.prems(3) by simp
      qed
      with True False rest c show ?thesis by simp
    next
      case no: False
      with False show ?thesis using Cons.IH [OF rest lr Cons.prems(3)] by simp
    qed
  qed
qed

lemma recursive_split_text_short:
  "length t \<le> chunk_size \<Longrightarrow> recursive_split_text t = stripped_chunk t"
  unfolding recursive_split_text_def
  by (rule split_text_with_short) (simp_all add: chunk_size_def separators_def)

lemma strip_unchanged:
  assumes "t \<noteq> []" and "\<not> latin1_space (hd t)" and "\<not> latin1_space (last t)"
  shows "strip t = t"
proof -
  from assms(1,2) have a: "dropWhile latin1_space t = t" by (cases t) auto
  from assms(1,3) have "dropWhile latin1_space (rev t) = rev t"
    by (cases "rev t") (auto simp: last_rev [symmetric] simp del: last_rev)
  with a show ?thesis by (simp add: strip_def)
qed

text \<open>
  Claim C8, as the code has it. A document whose content has at most 3000 characters
  gives at most one chunk. The chunk is the content without the whitespace at its two
  ends, with the document's source path and identifier; a content that is empty or all
  whitespace gives no chunk. So the chunk is the document's full content when the content
  is not empty and neither starts nor ends with a whitespace character.
\<close>

theorem short_document_one_chunk:
  assumes "length (page_content doc) \<le> chunk_size"
  shows "chunk_size = 3000
     \<and> split_all recursive_split_text [(fid, doc)]
         = (if strip (page_content doc) = [] then []
            else [doc\<lparr>page_content := strip (page_content doc)\<rparr>])
     \<and> (page_content doc \<noteq> [] \<and> \<not> latin1_space (hd (page_content doc))
          \<and> \<not> latin1_space (last (page_content doc))
        \<longrightarrow> split_all recursive_split_text [(fid, doc)] = [doc])"
proof -
  have chunks: "split_all recursive_split_text [(fid, doc)]
         = (if strip (page_content doc) = [] then []
            else [doc\<lparr>page_content := strip (page_content doc)\<rparr>])"
    using recursive_split_text_short [OF assms]
    by (simp add: split_all_def split_one_def split_documents_def stripped_chunk_def)
  have "split_all recursive_split_text [(fid, doc)] = [doc]"
    if "page_content doc \<noteq> []" and "\<not> latin1_space (hd (page_content doc))"
      and "\<not> latin1_space (last (page_content doc))"
    using strip_unchanged [OF that] that(1) unfolding chunks by simp
  with chunks show ?thesis by (simp add: chunk_size_def)
qed

text \<open>The theorem at chunk A of the example, a text of 25 characters.\<close>

theorem short_document_one_chunk_witness:
  "length (page_content chunk_A) \<le> chunk_size
   \<and> page_content chunk_A \<noteq> [] \<and> \<not> latin1_space (hd (page_content chunk_A))
   \<and> \<not> latin1_space (last (page_content chunk_A))
   \<and> split_all recursive_split_text [(''id-a'', chunk_A)] = [chunk_A]"
proof -
  have l: "length (page_content chunk_A) \<le> chunk_size"
    by (simp add: chunk_A_def chunk_size_def)
  have e: "page_content chunk_A \<noteq> [] \<and> \<not> latin1_space (hd (page_content chunk_A))
     \<and> \<not> latin1_space (last (page_content chunk_A))"
    by (simp add: chunk_A_def latin1_space_def)
  from short_document_one_chunk [OF l, of "''id-a''"] l e show ?thesis by blast
qed

text \<open>
  Claim C8 as stated fails: the content \<open>abc\<close> followed by a line feed has four characters,
  and its one chunk is \<open>abc\<close>, not the content; the empty content gives no chunk at all.
\<close>

theorem short_document_stripped:
  "length (''abc'' @ [CHR 0x0A]) \<le> chunk_size
   \<and> recursive_split_text (''abc'' @ [CHR 0x0A]) = [''abc'']
   \<and> split_all recursive_split_text
        [(''id-a'', \<lparr>page_content = ''abc'' @ [CHR 0x0A],
                     metadata = \<lparr>source = ''a.py'', file_id = ''id-a''\<rparr>\<rparr>)]
       = [\<lparr>page_content = ''abc'', metadata = \<lparr>source = ''a.py'', file_id = ''id-a''\<rparr>\<rparr>]
   \<and> recursive_split_text [] = []
   \<and> split_all recursive_split_text
        [(''id-a'', \<lparr>page_content = [], metadata = \<lparr>source = ''a.py'', file_id = ''id-a''\<rparr>\<rparr>)] = []"
proof -
  have a: "recursive_split_text (''abc'' @ [CHR 0x0A]) = [''abc'']" by code_simp
  have b: "recursive_split_text [] = []" by code_simp
  show ?thesis
    by (simp add: a [simplified] b split_all_def split_one_def split_documents_def chunk_size_def)
qed

lemma split_one_sources:
  "map (\<lambda>doc. source (metadata doc)) (split_one split_text d)
     = replicate (length (split_text (page_content d))) (source (metadata d))"
  by (simp add: split_one_def split_documents_def map_replicate_const comp_def)

lemma split_all_sources:
  "map (\<lambda>doc. source (metadata doc)) (split_all split_text ddict)
     = concat (map (\<lambda>(fid, d). replicate (length (split_text (page_content d))) (source (metadata d))) ddict)"
  by (induction ddict) (auto simp: split_all_def split_one_sources)

text \<open>
  Claim C10. The list of file names that \<open>load_and_index_files\<close> returns has one entry for
  each chunk, entry \<open>i\<close> being the source path in the metadata of chunk \<open>i\<close>; it is the
  concatenation, over the loaded documents, of the document's relative path repeated once
  for each chunk the splitter makes of it.
\<close>

theorem filenames_per_chunk:
  assumes "load_and_index_files loader relpath uuid split_text tok
             = Inr (index, split_docs, counts, filenames)"
  shows "length filenames = length split_docs
     \<and> (\<forall>i < length split_docs. filenames ! i = source (metadata (split_docs ! i)))
     \<and> filenames = concat (map (\<lambda>(fid, d).
            replicate (length (split_text (page_content d))) (source (metadata d)))
          (documents_dict (load_documents loader relpath uuid)))"
proof -
  let ?sd = "split_all split_text (documents_dict (load_documents loader relpath uuid))"
  from assms have sd: "split_docs = ?sd" and fn: "filenames = map (\<lambda>doc. source (metadata doc)) ?sd"
    by (auto simp: load_and_index_files_def Let_def split: sum.splits)
  have "length filenames = length split_docs" unfolding fn sd by simp
  moreover have "\<forall>i < length split_docs. filenames ! i = source (metadata (split_docs ! i))"
    unfolding fn sd by simp
  moreover have "filenames = concat (map (\<lambda>(fid, d).
            replicate (length (split_text (page_content d))) (source (metadata d)))
          (documents_dict (load_documents loader relpath uuid)))"
    unfolding fn by (rule split_all_sources)
  ultimately show ?thesis by blast
qed

lemma str_nat_0: "str_nat 0 = ''0''"
  by code_simp

lemma example_load_documents:
  "load_documents example_loader example_relpath str_nat
     = \<lparr>file_type_counts = [(''py'', 1)],
        documents_dict = [(''0'', \<lparr>page_content = ''alpha beta'',
                                   metadata = \<lparr>source = ''src/a.py'', file_id = ''0''\<rparr>\<rparr>)],
        uuid_calls = 1\<rparr>"
  by (simp add: load_documents_def extensions_def load_extension_def example_loader_def
        add_document_def example_relpath_def str_nat_0 Let_def)

lemma example_split_all:
  "split_all halves (documents_dict (load_documents example_loader example_relpath str_nat))
     = [\<lparr>page_content = ''alpha'', metadata = \<lparr>source = ''src/a.py'', file_id = ''0''\<rparr>\<rparr>,
        \<lparr>page_content = '' beta'', metadata = \<lparr>source = ''src/a.py'', file_id = ''0''\<rparr>\<rparr>]"
  by (simp add: example_load_documents split_all_def split_one_def split_documents_def halves_def)

lemma example_load:
  "\<exists>ix. load_and_index_files example_loader example_relpath str_nat halves split_words
     = Inr (Some ix,
            [\<lparr>page_content = ''alpha'', metadata = \<lparr>source = ''src/a.py'', file_id = ''0''\<rparr>\<rparr>,
             \<lparr>page_content = '' beta'', metadata = \<lparr>source = ''src/a.py'', file_id = ''0''\<rparr>\<rparr>],
            [(''py'', 1)], [''src/a.py'', ''src/a.py''])"
proof -
  have t: "clean_and_tokenize latin1 split_words ''alpha'' = [''alpha'']" by code_simp
  then have "\<exists>d \<in> set [clean_and_tokenize latin1 split_words ''alpha'', clean_and_tokenize latin1 split_words '' beta'']. d \<noteq> []"
    by simp
  from BM25Okapi_defined [OF this] obtain ix where
    "BM25Okapi [clean_and_tokenize latin1 split_words ''alpha'', clean_and_tokenize latin1 split_words '' beta''] = Inr ix"
    by blast
  then show ?thesis
    unfolding load_and_index_files_def Let_def example_split_all
    by (simp add: build_index_def example_load_documents)
qed

text \<open>
  The theorem for a repository of one file that the splitter cuts in two: the list has
  the path of the file twice.
\<close>

theorem filenames_per_chunk_witness:
  "\<exists>index split_docs counts.
     load_and_index_files example_loader example_relpath str_nat halves split_words
       = Inr (index, split_docs, counts, [''src/a.py'', ''src/a.py''])
     \<and> length split_docs = 2
     \<and> length (documents_dict (load_documents example_loader example_relpath str_nat)) = 1
     \<and> [''src/a.py'', ''src/a.py''] ! 1 = source (metadata (split_docs ! 1))"
proof -
  from example_load obtain ix where l:
    "load_and_index_files example_loader example_relpath str_nat halves split_words
     = Inr (Some ix,
            [\<lparr>page_content = ''alpha'', metadata = \<lparr>source = ''src/a.py'', file_id = ''0''\<rparr>\<rparr>,
             \<lparr>page_content = '' beta'', metadata = \<lparr>source = ''src/a.py'', file_id = ''0''\<rparr>\<rparr>],
            [(''py'', 1)], [''src/a.py'', ''src/a.py''])"
    by blast
  from filenames_per_chunk [OF l] have "length [''src/a.py'', ''src/a.py'']
      = length [\<lparr>page_content = ''alpha'', metadata = \<lparr>source = ''src/a.py'', file_id = ''0''\<rparr>\<rparr>,
             \<lparr>page_content = '' beta'', metadata = \<lparr>source = ''src/a.py'', file_id = ''0''\<rparr>\<rparr>]"
    by blast
  with l show ?thesis by (simp add: example_load_documents)
qed

end
